theory Spec2Isabelle
  imports Main
begin

section \<open>Data model\<close>

text \<open>
  The development follows \<^verbatim>\<open>src/epic/logging/logregator.py\<close>. Python exceptions
  are values of \<open>error\<close>; a function that can raise returns the error next to the
  state it leaves behind, since a raise does not undo earlier mutations.
\<close>

datatype error =
  RuntimeError | ValueError | AttributeError | AssertionError | TypeError | Full | OtherError string

text \<open>
  \<open>record.msg\<close> is any object; the f-string of the consumer loop renders it with
  \<open>str\<close>. Strings and integers are the two kinds the repository's tests log.
\<close>

datatype msg_obj = MsgStr string | MsgInt int

text \<open>
  An exception triple \<open>(type, value, traceback)\<close>, and what \<open>record.exc_info\<close> holds
  when it is not \<open>None\<close>: such a triple, or the value \<open>False\<close>, which \<open>Logger._log\<close>
  leaves as it is when the log call passes \<open>exc_info=False\<close>.
\<close>

datatype exc_info = ExcInfo (exc_type: string) (exc_value: string) (exc_traceback: "string list")

datatype exc_info_value = ExcTriple exc_info | ExcFalse

text \<open>
  A \<open>logging.LogRecord\<close>, with the attributes the aggregation code reads or writes.
  \<open>mark\<close> is the attribute \<^verbatim>\<open>__logregator\<close>: \<open>None\<close> while the attribute is absent.
\<close>

record log_record =
  name :: string
  levelno :: int
  msg :: msg_obj
  exc_info :: "exc_info_value option"
  exc_text :: "string option"
  mark :: "bool option"

section \<open>The handled-marker\<close>

definition mark_as_handled :: "log_record \<Rightarrow> log_record" where
  "mark_as_handled record = record\<lparr>mark := Some True\<rparr>"

definition is_handled :: "log_record \<Rightarrow> bool" where
  "is_handled record = (case mark record of None \<Rightarrow> False | Some b \<Rightarrow> b)"

section \<open>Rendering of integers and messages\<close>

text \<open>Python's \<open>str\<close> on an \<open>int\<close>: decimal digits, with a leading minus sign.\<close>

fun str_nat :: "nat \<Rightarrow> string" where
  "str_nat n = (if n < 10 then [''0123456789'' ! n]
                else str_nat (n div 10) @ [''0123456789'' ! (n mod 10)])"

declare str_nat.simps [simp del]

definition str_int :: "int \<Rightarrow> string" where
  "str_int i = (if i < 0 then CHR ''-'' # str_nat (nat (- i)) else str_nat (nat i))"

fun py_str :: "msg_obj \<Rightarrow> string" where
  "py_str (MsgStr s) = s"
| "py_str (MsgInt i) = str_int i"

text \<open>\<open>sep.join(xs)\<close>.\<close>

fun join :: "string \<Rightarrow> string list \<Rightarrow> string" where
  "join sep [] = []"
| "join sep [x] = x"
| "join sep (x # y # ys) = x @ sep @ join sep (y # ys)"

section \<open>The intercept handler: emit\<close>

text \<open>
  A \<open>LogregatorHandler\<close>: the threshold \<open>level\<close> inherited from \<open>logging.Handler\<close>,
  the reference \<open>output_queue\<close> (an object identity) and \<open>_old_root_level\<close>.
\<close>

record LogregatorHandler =
  level :: int
  output_queue :: nat
  old_root_level :: "int option"

text \<open>
  \<open>emit\<close> is generic in its queue (the protocol \<open>QueueLike\<close>): \<open>put\<close> is the queue's
  method, acting on the state \<open>q\<close> of the object \<open>self.output_queue\<close> refers to; it
  returns \<open>Inr\<close> the new state or \<open>Inl\<close> the exception it raises.
  \<open>traceback.format_exception\<close>, applied to a triple, is the parameter
  \<open>format_exception\<close>, \<open>os.getpid()\<close> the parameter \<open>getpid\<close>. The test of line 50 is
  \<open>is not None\<close>, so \<open>False\<close> passes it, and unpacking \<open>False\<close> with \<open>*\<close> raises
  \<open>TypeError\<close> before anything is assigned. The result is the exception that leaves
  \<open>emit\<close>, if any, the record as mutated, and the queue.
\<close>

definition emit ::
  "(exc_info \<Rightarrow> string list) \<Rightarrow> ('q \<Rightarrow> int \<times> log_record \<Rightarrow> error + 'q) \<Rightarrow> int \<Rightarrow>
   LogregatorHandler \<Rightarrow> log_record \<Rightarrow> 'q \<Rightarrow> error option \<times> log_record \<times> 'q" where
  "emit format_exception put getpid self record q =
     (if is_handled record then (None, record, q)
      else if level self \<le> levelno record then
        (case (case exc_info record of
                 None \<Rightarrow> Inr record
               | Some ExcFalse \<Rightarrow> Inl TypeError
               | Some (ExcTriple ei) \<Rightarrow>
                   Inr (record\<lparr>exc_text := Some (join [CHR 0x0A] (format_exception ei)),
                              exc_info := None\<rparr>)) of
           Inl e \<Rightarrow> (Some e, record, q)
         | Inr record' \<Rightarrow>
             (case put q (getpid, record') of
                Inr q' \<Rightarrow> (None, record', q')
              | Inl Full \<Rightarrow> (None, record', q)
              | Inl e \<Rightarrow> (Some e, record', q)))
      else (None, record, q))"

text \<open>
  Modelled from the spec: \<open>IterableQueue\<close> of \<open>epic.common.queue\<close>, which is not part of
  this repository. A channel holds the items put and not yet delivered, in order, and a
  closed flag; \<open>no_more_input\<close> closes it and closing twice is closing once. A put on
  a closed channel is silently dropped: it returns normally and leaves the channel as it
  was.
\<close>

record channel =
  q_items :: "(int \<times> log_record) list"
  q_closed :: bool

definition channel_put :: "channel \<Rightarrow> int \<times> log_record \<Rightarrow> error + channel" where
  "channel_put q item = (if q_closed q then Inr q else Inr (q\<lparr>q_items := q_items q @ [item]\<rparr>))"

definition no_more_input :: "channel \<Rightarrow> channel" where
  "no_more_input q = q\<lparr>q_closed := True\<rparr>"

section \<open>The sink logger\<close>

text \<open>
  The state of a \<open>logging.Logger\<close> as the session reads it: its name, its own level, the
  levels of its proper ancestors (nearest first, the root logger last), its \<open>disabled\<close>
  flag and \<open>manager.disable\<close>. The sink is borrowed: a session's \<open>logger\<close> field stands for
  the state the referenced logger has when the session's code runs.
\<close>

record Logger =
  logger_name :: string
  logger_level :: int
  ancestor_levels :: "int list"
  disabled :: bool
  manager_disable :: int

definition NOTSET :: int where
  "NOTSET = 0"

fun first_set_level :: "int list \<Rightarrow> int" where
  "first_set_level [] = NOTSET"
| "first_set_level (l # ls) = (if l \<noteq> 0 then l else first_set_level ls)"

definition getEffectiveLevel :: "Logger \<Rightarrow> int" where
  "getEffectiveLevel lg = first_set_level (logger_level lg # ancestor_levels lg)"

definition isEnabledFor :: "Logger \<Rightarrow> int \<Rightarrow> bool" where
  "isEnabledFor lg lvl =
     (if disabled lg then False
      else if lvl \<le> manager_disable lg then False
      else getEffectiveLevel lg \<le> lvl)"

section \<open>The consumer loop\<close>

text \<open>
  The objects whose attribute \<open>Process\<close> a session substitutes: the spawn context
  \<open>mp.get_context("spawn")\<close>, and the modules \<open>multiprocessing\<close> and
  \<open>multiprocessing.context\<close>. A process class is \<open>LogregatorProcess\<close> or another class,
  given by its name.
\<close>

datatype ctx = SpawnContext | MpModule | MpContextModule

datatype process_type = LogregatorProcess_type | Other_type string

datatype thread = Thread (daemon: bool)

text \<open>
  A \<open>Logregator\<close> session. \<open>input_queue\<close> and \<open>handler\<close> are references (object
  identities); \<open>old_process\<close> is the dictionary \<open>_old_process\<close>.
\<close>

record Logregator =
  logger :: Logger
  my_pid :: int
  old_process :: "ctx \<rightharpoonup> process_type option"
  input_queue :: "nat option"
  handler :: "nat option"
  consumer_thread :: "thread option"

definition Logregator_init :: "Logger \<Rightarrow> int \<Rightarrow> string \<Rightarrow> Logregator" where
  "Logregator_init lg getpid start_method =
     \<lparr>logger = lg, my_pid = getpid,
      old_process = (if start_method = ''spawn''
                     then [SpawnContext \<mapsto> None, MpModule \<mapsto> None, MpContextModule \<mapsto> None]
                     else [SpawnContext \<mapsto> None]),
      input_queue = None, handler = None, consumer_thread = None\<rparr>"

definition started :: "Logregator \<Rightarrow> bool" where
  "started self = (consumer_thread self \<noteq> None)"

text \<open>
  One iteration of the loop in \<open>_consume_logs_proc\<close>, on the tagged record
  \<open>(pid, record)\<close>: the record as the iteration leaves it, and whether it was passed to
  \<open>self.logger.handle\<close>. The inner conditional yields the final \<open>addendum\<close>, or \<open>None\<close>
  where the source says \<open>continue\<close>.
\<close>

definition consume_record :: "Logregator \<Rightarrow> int \<times> log_record \<Rightarrow> log_record \<times> bool" where
  "consume_record self item =
     (case item of (pid, record) \<Rightarrow>
        if \<not> isEnabledFor (logger self) (levelno record) then (record, False)
        else
          (let addendum = logger_name (logger self) in
           (case (if my_pid self \<noteq> pid then Some (addendum @ '' PID '' @ str_int pid)
                  else if name record = logger_name (logger self) then None
                  else Some addendum) of
              None \<Rightarrow> (record, False)
            | Some addendum \<Rightarrow>
                (mark_as_handled
                   (record\<lparr>msg := MsgStr (''['' @ addendum @ ''] - '' @ py_str (msg record))\<rparr>),
                 True))))"

text \<open>The records passed to \<open>self.logger.handle\<close>, in order, over the items the queue yields.\<close>

fun consume_loop :: "Logregator \<Rightarrow> (int \<times> log_record) list \<Rightarrow> log_record list" where
  "consume_loop self [] = []"
| "consume_loop self (item # rest) =
     (case consume_record self item of
        (record', True) \<Rightarrow> record' # consume_loop self rest
      | (record', False) \<Rightarrow> consume_loop self rest)"

definition consume_logs_proc :: "Logregator \<Rightarrow> (int \<times> log_record) list \<Rightarrow> error + log_record list" where
  "consume_logs_proc self yielded =
     (case input_queue self of
        None \<Rightarrow> Inl AssertionError
      | Some q \<Rightarrow> Inr (consume_loop self yielded))"

section \<open>The root logger: install and uninstall\<close>

text \<open>
  \<open>logging.root\<close>: its handler list, as object identities in list order, and its level.
  \<open>setLevel\<close>, \<open>addHandler\<close> and \<open>removeHandler\<close> are the methods of \<open>logging.Logger\<close>:
  \<open>addHandler\<close> appends a handler that is not yet in the list, \<open>removeHandler\<close> removes
  the first occurrence of one that is.
\<close>

record root_logger =
  root_handlers :: "nat list"
  root_level :: int

definition setLevel :: "int \<Rightarrow> root_logger \<Rightarrow> root_logger" where
  "setLevel lvl root = root\<lparr>root_level := lvl\<rparr>"

definition addHandler :: "nat \<Rightarrow> root_logger \<Rightarrow> root_logger" where
  "addHandler hdlr root =
     (if hdlr \<notin> set (root_handlers root)
      then root\<lparr>root_handlers := root_handlers root @ [hdlr]\<rparr>
      else root)"

definition removeHandler :: "nat \<Rightarrow> root_logger \<Rightarrow> root_logger" where
  "removeHandler hdlr root =
     (if hdlr \<in> set (root_handlers root)
      then root\<lparr>root_handlers := remove1 hdlr (root_handlers root)\<rparr>
      else root)"

text \<open>
  \<open>install\<close> and \<open>uninstall\<close> of the handler object with identity \<open>self_id\<close> and state
  \<open>self\<close>, on the root logger \<open>root\<close>. \<open>self in logging.root.handlers\<close> compares
  identities, \<open>logging.Handler\<close> defining no equality. \<open>install\<close> assigns
  \<open>_old_root_level\<close> and returns the handler's new state with the root logger's;
  \<open>uninstall\<close> assigns no attribute of the handler and returns the root logger's new
  state, or the exception it raises.
\<close>

definition install :: "nat \<Rightarrow> LogregatorHandler \<Rightarrow> root_logger \<Rightarrow> LogregatorHandler \<times> root_logger" where
  "install self_id self root =
     (if self_id \<in> set (root_handlers root) then (self, root)
      else
        (let self' = self\<lparr>old_root_level := Some (root_level root)\<rparr>;
             root' = setLevel (NOTSET + 1) root;
             root'' = addHandler self_id root'
         in (self', root'')))"

definition uninstall :: "nat \<Rightarrow> LogregatorHandler \<Rightarrow> root_logger \<Rightarrow> error + root_logger" where
  "uninstall self_id self root =
     (if self_id \<in> set (root_handlers root) then
        (case old_root_level self of
           None \<Rightarrow> Inl RuntimeError
         | Some lvl \<Rightarrow> Inr (setLevel lvl (removeHandler self_id root)))
      else Inr root)"

text \<open>
  \<open>LogregatorHandler(level, output_queue)\<close>: the state \<open>__init__\<close> gives a new handler.
\<close>

definition LogregatorHandler_init :: "int \<Rightarrow> nat \<Rightarrow> LogregatorHandler" where
  "LogregatorHandler_init lvl q = \<lparr>level = lvl, output_queue = q, old_root_level = None\<rparr>"

section \<open>The process-wide state\<close>

text \<open>
  The state the aggregation code shares within one process: the root logger, the
  \<open>LogregatorHandler\<close> objects by identity (an identity with no entry is not a
  \<open>LogregatorHandler\<close>), the \<open>IterableQueue\<close> objects by identity, the attribute
  \<open>Process\<close> of each context, and the next identity to give to a new object.
\<close>

record world =
  logging_root :: root_logger
  handler_objs :: "nat \<rightharpoonup> LogregatorHandler"
  queues :: "nat \<rightharpoonup> channel"
  Process :: "ctx \<Rightarrow> process_type option"
  next_id :: nat

text \<open>
  The identities the root logger holds have been given out, and no handler is listed
  twice (\<open>addHandler\<close> keeps it so).
\<close>

definition wf_world :: "world \<Rightarrow> bool" where
  "wf_world w = ((\<forall>h \<in> set (root_handlers (logging_root w)). h < next_id w)
                 \<and> distinct (root_handlers (logging_root w)))"

definition new_IterableQueue :: "world \<Rightarrow> nat \<times> world" where
  "new_IterableQueue w =
     (next_id w,
      w\<lparr>queues := (queues w)(next_id w \<mapsto> \<lparr>q_items = [], q_closed = False\<rparr>),
        next_id := Suc (next_id w)\<rparr>)"

definition new_LogregatorHandler :: "int \<Rightarrow> nat \<Rightarrow> world \<Rightarrow> nat \<times> world" where
  "new_LogregatorHandler lvl q w =
     (next_id w,
      w\<lparr>handler_objs := (handler_objs w)(next_id w \<mapsto> LogregatorHandler_init lvl q),
        next_id := Suc (next_id w)\<rparr>)"

text \<open>
  A method call through a reference: \<open>h.install()\<close> and \<open>h.uninstall()\<close> on the object
  with identity \<open>h\<close>. An object that is not a \<open>LogregatorHandler\<close> has no such method.
\<close>

definition call_install :: "nat \<Rightarrow> world \<Rightarrow> error + world" where
  "call_install h w =
     (case handler_objs w h of
        None \<Rightarrow> Inl AttributeError
      | Some self \<Rightarrow>
          (case install h self (logging_root w) of
             (self', root') \<Rightarrow>
               Inr (w\<lparr>logging_root := root', handler_objs := (handler_objs w)(h \<mapsto> self')\<rparr>)))"

definition call_uninstall :: "nat \<Rightarrow> world \<Rightarrow> error + world" where
  "call_uninstall h w =
     (case handler_objs w h of
        None \<Rightarrow> Inl AttributeError
      | Some self \<Rightarrow>
          (case uninstall h self (logging_root w) of
             Inl e \<Rightarrow> Inl e
           | Inr root' \<Rightarrow> Inr (w\<lparr>logging_root := root'\<rparr>)))"

section \<open>The process spawn interceptor\<close>

text \<open>
  A \<open>LogregatorProcess\<close>, by the attribute its \<open>__init__\<close> adds: the pairs
  \<open>(h.level, h.output_queue)\<close> of the \<open>LogregatorHandler\<close>s among the root handlers.
\<close>

record LogregatorProcess =
  logregator_handlers :: "(int \<times> nat) list"

definition LogregatorProcess_init :: "world \<Rightarrow> LogregatorProcess" where
  "LogregatorProcess_init w =
     \<lparr>logregator_handlers =
        concat (map (\<lambda>h. case handler_objs w h of
                             None \<Rightarrow> []
                           | Some obj \<Rightarrow> [(level obj, output_queue obj)])
                    (root_handlers (logging_root w)))\<rparr>"

fun new_handlers :: "(int \<times> nat) list \<Rightarrow> world \<Rightarrow> nat list \<times> world" where
  "new_handlers [] w = ([], w)"
| "new_handlers ((lvl, q) # rest) w =
     (case new_LogregatorHandler lvl q w of
        (h, w1) \<Rightarrow> (case new_handlers rest w1 of (hs, w2) \<Rightarrow> (h # hs, w2)))"

fun install_each :: "nat list \<Rightarrow> world \<Rightarrow> error option \<times> world" where
  "install_each [] w = (None, w)"
| "install_each (h # hs) w =
     (case call_install h w of
        Inl e \<Rightarrow> (Some e, w)
      | Inr w1 \<Rightarrow> install_each hs w1)"

fun uninstall_each :: "nat list \<Rightarrow> world \<Rightarrow> error option \<times> world" where
  "uninstall_each [] w = (None, w)"
| "uninstall_each (h # hs) w =
     (case call_uninstall h w of
        Inl e \<Rightarrow> (Some e, w)
      | Inr w1 \<Rightarrow> uninstall_each hs w1)"

text \<open>
  \<open>run\<close>, in the world of the process it runs in. \<open>target\<close> is \<open>super().run()\<close>, the
  user's callable: it returns the exception it raises, if any, and the world it leaves.
  An exception of the \<open>finally\<close> block replaces the one of the \<open>try\<close> block.
\<close>

definition run :: "LogregatorProcess \<Rightarrow> (world \<Rightarrow> error option \<times> world) \<Rightarrow> world \<Rightarrow> error option \<times> world" where
  "run self target w =
     (case new_handlers (logregator_handlers self) w of
        (handlers, w1) \<Rightarrow>
          (case install_each handlers w1 of
             (Some e, w2) \<Rightarrow> (Some e, w2)
           | (None, w2) \<Rightarrow>
               (case target w2 of
                  (r, w3) \<Rightarrow>
                    (case uninstall_each handlers w3 of
                       (Some e, w4) \<Rightarrow> (Some e, w4)
                     | (None, w4) \<Rightarrow> (r, w4)))))"

section \<open>The session: start and stop\<close>

text \<open>
  The items of \<open>_old_process\<close> in insertion order, which is the order \<open>__init__\<close> fills it
  in.
\<close>

definition dict_items :: "(ctx \<rightharpoonup> 'v) \<Rightarrow> (ctx \<times> 'v) list" where
  "dict_items d =
     concat (map (\<lambda>c. case d c of None \<Rightarrow> [] | Some v \<Rightarrow> [(c, v)])
                 [SpawnContext, MpModule, MpContextModule])"

fun save_and_substitute ::
  "ctx list \<Rightarrow> (ctx \<rightharpoonup> process_type option) \<Rightarrow> (ctx \<Rightarrow> process_type option) \<Rightarrow>
   (ctx \<rightharpoonup> process_type option) \<times> (ctx \<Rightarrow> process_type option)" where
  "save_and_substitute [] old P = (old, P)"
| "save_and_substitute (c # cs) old P =
     save_and_substitute cs (old(c \<mapsto> P c)) (P(c := Some LogregatorProcess_type))"

fun restore_each ::
  "(ctx \<times> process_type option) list \<Rightarrow> (ctx \<Rightarrow> process_type option) \<Rightarrow> (ctx \<Rightarrow> process_type option)" where
  "restore_each [] P = P"
| "restore_each ((c, old) # rest) P = restore_each rest (P(c := old))"

text \<open>
  \<open>start\<close>. Whether creating and starting the consumer thread succeeds is the
  environment's choice, the parameter \<open>thread_starts\<close>; the \<open>except\<close> clause handles the
  failure.
\<close>

definition start :: "bool \<Rightarrow> Logregator \<Rightarrow> world \<Rightarrow> error option \<times> Logregator \<times> world" where
  "start thread_starts self w =
     (if \<not> started self then
        (case new_IterableQueue w of
           (q, w1) \<Rightarrow>
             (let self1 = self\<lparr>input_queue := Some q\<rparr> in
              case new_LogregatorHandler (getEffectiveLevel (logger self1)) q w1 of
                (h, w2) \<Rightarrow>
                  (let self2 = self1\<lparr>handler := Some h\<rparr> in
                   case call_install h w2 of
                     Inl e \<Rightarrow> (Some e, self2, w2)
                   | Inr w3 \<Rightarrow>
                       (case save_and_substitute (map fst (dict_items (old_process self2)))
                               (old_process self2) (Process w3) of
                          (old, P) \<Rightarrow>
                            (let self3 = self2\<lparr>old_process := old\<rparr>;
                                 w4 = w3\<lparr>Process := P\<rparr>
                             in if thread_starts
                                then (None, self3\<lparr>consumer_thread := Some (Thread True)\<rparr>, w4)
                                else (None, self3\<lparr>consumer_thread := None\<rparr>, w4))))))
      else (None, self, w))"

text \<open>
  \<open>stop\<close>. The call of \<open>no_more_input\<close> is inside \<open>try ... except Exception: pass\<close>: on
  a missing queue nothing happens. \<open>join\<close> changes none of the state modelled here; it
  is taken to return, the consumer's sequence ending once the channel is closed and
  drained. \<open>self._handler.uninstall()\<close> on \<open>None\<close> raises \<open>AttributeError\<close>.
\<close>

definition stop :: "Logregator \<Rightarrow> world \<Rightarrow> error option \<times> Logregator \<times> world" where
  "stop self w =
     (if started self then
        (let w1 = (case input_queue self of
                     None \<Rightarrow> w
                   | Some q \<Rightarrow>
                       (case queues w q of
                          None \<Rightarrow> w
                        | Some c \<Rightarrow> w\<lparr>queues := (queues w)(q \<mapsto> no_more_input c)\<rparr>));
             self1 = self\<lparr>consumer_thread := None\<rparr>
         in case handler self1 of
              None \<Rightarrow> (Some AttributeError, self1, w1)
            | Some h \<Rightarrow>
                (case call_uninstall h w1 of
                   Inl e \<Rightarrow> (Some e, self1, w1)
                 | Inr w2 \<Rightarrow>
                     (let self2 = self1\<lparr>handler := None\<rparr>;
                          self3 = self2\<lparr>input_queue := None\<rparr>;
                          w3 = w2\<lparr>Process := restore_each (dict_items (old_process self3)) (Process w2)\<rparr>
                      in (None, self3, w3))))
      else (None, self, w))"

text \<open>
  What a started session has in place: the consumer thread, the handler registered on the
  root logger, at the sink's effective level and bound to the session's channel, the
  channel open and empty, the root level at \<open>NOTSET + 1\<close>, and \<open>LogregatorProcess\<close> as
  the \<open>Process\<close> of every context of \<open>_old_process\<close>.
\<close>

definition working :: "Logregator \<Rightarrow> world \<Rightarrow> bool" where
  "working self w =
     (case (consumer_thread self, handler self, input_queue self) of
        (Some t, Some h, Some q) \<Rightarrow>
          h \<in> set (root_handlers (logging_root w))
          \<and> (case handler_objs w h of
                None \<Rightarrow> False
              | Some obj \<Rightarrow> level obj = getEffectiveLevel (logger self) \<and> output_queue obj = q
                            \<and> old_root_level obj \<noteq> None)
          \<and> queues w q = Some \<lparr>q_items = [], q_closed = False\<rparr>
          \<and> root_level (logging_root w) = NOTSET + 1
          \<and> list_all (\<lambda>(c, old). Process w c = Some LogregatorProcess_type)
                (dict_items (old_process self))
      | _ \<Rightarrow> False)"

text \<open>A sequence of \<open>start\<close> and \<open>stop\<close> calls on one session, up to the first exception.\<close>

datatype session_op = Start bool | Stop

fun apply_ops :: "session_op list \<Rightarrow> Logregator \<Rightarrow> world \<Rightarrow> error option \<times> Logregator \<times> world" where
  "apply_ops [] self w = (None, self, w)"
| "apply_ops (Start thread_starts # ops) self w =
     (case start thread_starts self w of
        (Some e, self', w') \<Rightarrow> (Some e, self', w')
      | (None, self', w') \<Rightarrow> apply_ops ops self' w')"
| "apply_ops (Stop # ops) self w =
     (case stop self w of
        (Some e, self', w') \<Rightarrow> (Some e, self', w')
      | (None, self', w') \<Rightarrow> apply_ops ops self' w')"

text \<open>
  A session and a world that agree: either the session holds no thread, no handler and
  no channel, or it holds all three and its handler is a \<open>LogregatorHandler\<close> object
  with a recorded root level.
\<close>

definition consistent :: "Logregator \<Rightarrow> world \<Rightarrow> bool" where
  "consistent self w =
     (case consumer_thread self of
        None \<Rightarrow> handler self = None \<and> input_queue self = None
      | Some t \<Rightarrow>
          input_queue self \<noteq> None
          \<and> (case handler self of
                None \<Rightarrow> False
              | Some h \<Rightarrow>
                  (case handler_objs w h of
                     None \<Rightarrow> False
                   | Some obj \<Rightarrow> old_root_level obj \<noteq> None)))"

section \<open>Example states\<close>

text \<open>
  The sink \<open>S\<close> at INFO under a root logger at WARNING, and a process in which nothing is
  installed yet.
\<close>

definition sink_S :: Logger where
  "sink_S = \<lparr>logger_name = ''S'', logger_level = 20, ancestor_levels = [30],
             disabled = False, manager_disable = 0\<rparr>"

definition fresh_world :: world where
  "fresh_world =
     \<lparr>logging_root = \<lparr>root_handlers = [], root_level = 30\<rparr>,
      handler_objs = Map.empty, queues = Map.empty,
      Process = (\<lambda>c. Some (Other_type ''Process'')), next_id = 0\<rparr>"

text \<open>
  A parent process whose root logger holds a handler of another class (identity 0) and a
  \<open>LogregatorHandler\<close> (identity 2) at INFO on the queue with identity 1.
\<close>

definition parent_world :: world where
  "parent_world =
     \<lparr>logging_root = \<lparr>root_handlers = [0, 2], root_level = 1\<rparr>,
      handler_objs = [2 \<mapsto> \<lparr>level = 20, output_queue = 1, old_root_level = Some 30\<rparr>],
      queues = [1 \<mapsto> \<lparr>q_items = [], q_closed = False\<rparr>],
      Process = (\<lambda>c. Some LogregatorProcess_type), next_id = 3\<rparr>"

section \<open>The convenience session\<close>

text \<open>
  A call of one of the logger factories of \<^verbatim>\<open>logger.py\<close>, with its arguments: name and
  level, and for the file loggers the file name and the mode between them. A factory
  creates (or reconfigures) the logger of that name and returns it.
\<close>

datatype logger_call =
    get_console_logger string int
  | get_file_and_console_logger string string string int
  | get_file_logger string string string int

text \<open>
  \<open>Logtor.__init__\<close>, with every argument given (the defaults of the source are mode
  \<open>a\<close>, level INFO, \<open>console\<close> \<open>None\<close> and name \<open>LOGTOR\<close>). \<open>factory\<close> gives the logger
  a factory call returns; \<open>getpid\<close> and \<open>start_method\<close> are read by
  \<open>Logregator.__init__\<close>. The result is the exception raised or the session
  constructed, and the factory calls made, in order.
\<close>

definition Logtor_init ::
  "(logger_call \<Rightarrow> Logger) \<Rightarrow> int \<Rightarrow> string \<Rightarrow>
   string option \<Rightarrow> string \<Rightarrow> int \<Rightarrow> bool option \<Rightarrow> string \<Rightarrow>
   (error + Logregator) \<times> logger_call list" where
  "Logtor_init factory getpid start_method filename mode lvl console nm =
     (let console = (case console of None \<Rightarrow> filename = None | Some b \<Rightarrow> b) in
      case filename of
        None \<Rightarrow>
          if \<not> console then (Inl ValueError, [])
          else (Inr (Logregator_init (factory (get_console_logger nm lvl)) getpid start_method),
                [get_console_logger nm lvl])
      | Some f \<Rightarrow>
          if console
          then (Inr (Logregator_init (factory (get_file_and_console_logger nm f mode lvl))
                       getpid start_method),
                [get_file_and_console_logger nm f mode lvl])
          else (Inr (Logregator_init (factory (get_file_logger nm f mode lvl)) getpid start_method),
                [get_file_logger nm f mode lvl]))"

section \<open>The handled-marker: properties\<close>

text \<open>
  C10: a record that was never marked is not handled; after \<open>mark_as_handled\<close> any
  record is handled; marking an already marked record leaves it as it is.
\<close>

theorem mark_as_handled_is_handled:
  "(mark record = None \<longrightarrow> \<not> is_handled record)
   \<and> is_handled (mark_as_handled record)
   \<and> mark_as_handled (mark_as_handled record) = mark_as_handled record"
  by (simp add: is_handled_def mark_as_handled_def)

theorem mark_as_handled_is_handled_witness:
  "mark \<lparr>name = ''X'', levelno = 20, msg = MsgStr ''hello'', exc_info = None,
          exc_text = None, mark = None\<rparr> = None
   \<and> \<not> is_handled \<lparr>name = ''X'', levelno = 20, msg = MsgStr ''hello'', exc_info = None,
          exc_text = None, mark = None\<rparr>"
  using mark_as_handled_is_handled
    [of "\<lparr>name = ''X'', levelno = 20, msg = MsgStr ''hello'', exc_info = None,
          exc_text = None, mark = None\<rparr>"]
  by simp

section \<open>The consumer loop: properties\<close>

lemma consume_record_dispatched:
  assumes "consume_record self (origin_pid, record) = (record', True)"
  shows "msg record' = MsgStr (''['' @ logger_name (logger self)
             @ (if origin_pid \<noteq> my_pid self then '' PID '' @ str_int origin_pid else [])
             @ ''] - '' @ py_str (msg record))"
  using assms
  by (auto simp: consume_record_def mark_as_handled_def Let_def split: if_splits)

lemma consume_loop_sound:
  "r \<in> set (consume_loop self yielded) \<Longrightarrow>
     \<exists>item \<in> set yielded. consume_record self item = (r, True)"
  by (induction yielded) (auto split: prod.splits bool.splits)

text \<open>
  C3: a tagged record \<open>(origin_pid, record)\<close> that an iteration of the consumer loop passes
  to the sink has its message rewritten to \<open>[attribution] - original\<close>, where the
  attribution is the sink's name, followed by \<open> PID origin_pid\<close> exactly when
  \<open>origin_pid\<close> is not the session's \<open>my_pid\<close>; and every record the loop passes to the
  sink comes from such an iteration on one of the items the queue yielded.
\<close>

theorem consume_rewrites_message:
  "(consume_record self (origin_pid, record) = (record', True) \<longrightarrow>
      msg record' = MsgStr (''['' @ logger_name (logger self)
             @ (if origin_pid \<noteq> my_pid self then '' PID '' @ str_int origin_pid else [])
             @ ''] - '' @ py_str (msg record)))
   \<and> (r \<in> set (consume_loop self yielded) \<longrightarrow>
        (\<exists>(pid, original) \<in> set yielded.
           consume_record self (pid, original) = (r, True)
           \<and> msg r = MsgStr (''['' @ logger_name (logger self)
                 @ (if pid \<noteq> my_pid self then '' PID '' @ str_int pid else [])
                 @ ''] - '' @ py_str (msg original))))"
proof (intro conjI impI)
  assume "consume_record self (origin_pid, record) = (record', True)"
  then show "msg record' = MsgStr (''['' @ logger_name (logger self)
             @ (if origin_pid \<noteq> my_pid self then '' PID '' @ str_int origin_pid else [])
             @ ''] - '' @ py_str (msg record))"
    by (rule consume_record_dispatched)
next
  assume "r \<in> set (consume_loop self yielded)"
  then obtain item where item: "item \<in> set yielded" "consume_record self item = (r, True)"
    using consume_loop_sound by blast
  obtain pid original where eq: "item = (pid, original)"
    by (cases item)
  from item(2) have "msg r = MsgStr (''['' @ logger_name (logger self)
                 @ (if pid \<noteq> my_pid self then '' PID '' @ str_int pid else [])
                 @ ''] - '' @ py_str (msg original))"
    unfolding eq by (rule consume_record_dispatched)
  with item eq show "\<exists>(pid, original) \<in> set yielded.
           consume_record self (pid, original) = (r, True)
           \<and> msg r = MsgStr (''['' @ logger_name (logger self)
                 @ (if pid \<noteq> my_pid self then '' PID '' @ str_int pid else [])
                 @ ''] - '' @ py_str (msg original))"
    by blast
qed

text \<open>
  The scenario of the specification: sink \<open>S\<close> at INFO, created in process 100; logger
  \<open>X\<close> in the worker with pid 4242 emits INFO \<open>hello\<close>.
\<close>

theorem consume_rewrites_message_witness:
  "consume_record
     (Logregator_init \<lparr>logger_name = ''S'', logger_level = 20, ancestor_levels = [30],
                        disabled = False, manager_disable = 0\<rparr> 100 ''spawn'')
     (4242, \<lparr>name = ''X'', levelno = 20, msg = MsgStr ''hello'', exc_info = None,
              exc_text = None, mark = None\<rparr>)
   = (\<lparr>name = ''X'', levelno = 20, msg = MsgStr ''[S PID 4242] - hello'', exc_info = None,
        exc_text = None, mark = Some True\<rparr>, True)
   \<and> msg \<lparr>name = ''X'', levelno = 20, msg = MsgStr ''[S PID 4242] - hello'', exc_info = None,
        exc_text = None, mark = Some True\<rparr>
     = MsgStr (''['' @ ''S'' @ '' PID '' @ str_int 4242 @ ''] - '' @ ''hello'')"
proof -
  have run: "consume_record
     (Logregator_init \<lparr>logger_name = ''S'', logger_level = 20, ancestor_levels = [30],
                        disabled = False, manager_disable = 0\<rparr> 100 ''spawn'')
     (4242, \<lparr>name = ''X'', levelno = 20, msg = MsgStr ''hello'', exc_info = None,
              exc_text = None, mark = None\<rparr>)
   = (\<lparr>name = ''X'', levelno = 20, msg = MsgStr ''[S PID 4242] - hello'', exc_info = None,
        exc_text = None, mark = Some True\<rparr>, True)"
    by (simp add: consume_record_def Logregator_init_def isEnabledFor_def getEffectiveLevel_def
        mark_as_handled_def str_int_def str_nat.simps)
  from consume_rewrites_message [THEN conjunct1, rule_format, OF run] run
  show ?thesis
    by (simp add: Logregator_init_def)
qed

text \<open>
  C4: a tagged record that passes the sink-level re-check, whose origin pid is the
  session's \<open>my_pid\<close> and whose logger name is the sink's name, is dropped: the iteration
  leaves the record as it was and does not pass it to the sink, and the loop goes on
  with the remaining items.
\<close>

theorem self_echo_dropped:
  assumes "isEnabledFor (logger self) (levelno record)"
    and "origin_pid = my_pid self"
    and "name record = logger_name (logger self)"
  shows "consume_record self (origin_pid, record) = (record, False)
         \<and> consume_loop self ((origin_pid, record) # rest) = consume_loop self rest"
  using assms by (simp add: consume_record_def)

theorem self_echo_dropped_witness:
  "isEnabledFor (logger (Logregator_init \<lparr>logger_name = ''S'', logger_level = 20,
        ancestor_levels = [30], disabled = False, manager_disable = 0\<rparr> 100 ''spawn'')) 20
   \<and> consume_record
       (Logregator_init \<lparr>logger_name = ''S'', logger_level = 20, ancestor_levels = [30],
                          disabled = False, manager_disable = 0\<rparr> 100 ''spawn'')
       (100, \<lparr>name = ''S'', levelno = 20, msg = MsgStr ''hello'', exc_info = None,
               exc_text = None, mark = None\<rparr>)
     = (\<lparr>name = ''S'', levelno = 20, msg = MsgStr ''hello'', exc_info = None,
          exc_text = None, mark = None\<rparr>, False)"
proof -
  have en: "isEnabledFor (logger (Logregator_init \<lparr>logger_name = ''S'', logger_level = 20,
        ancestor_levels = [30], disabled = False, manager_disable = 0\<rparr> 100 ''spawn''))
      (levelno \<lparr>name = ''S'', levelno = 20, msg = MsgStr ''hello'', exc_info = None,
               exc_text = None, mark = None\<rparr>)"
    by (simp add: Logregator_init_def isEnabledFor_def getEffectiveLevel_def)
  have pid: "100 = my_pid (Logregator_init \<lparr>logger_name = ''S'', logger_level = 20,
        ancestor_levels = [30], disabled = False, manager_disable = 0\<rparr> 100 ''spawn'')"
    by (simp add: Logregator_init_def)
  have nm: "name \<lparr>name = ''S'', levelno = 20, msg = MsgStr ''hello'', exc_info = None,
               exc_text = None, mark = None\<rparr>
      = logger_name (logger (Logregator_init \<lparr>logger_name = ''S'', logger_level = 20,
        ancestor_levels = [30], disabled = False, manager_disable = 0\<rparr> 100 ''spawn''))"
    by (simp add: Logregator_init_def)
  from self_echo_dropped [OF en pid nm, of "[]"] en show ?thesis
    by simp
qed

section \<open>emit: properties\<close>

lemma emit_handled:
  "is_handled record \<Longrightarrow> emit fmt put pid self record q = (None, record, q)"
  by (simp add: emit_def)

lemma emit_below_level:
  "\<not> is_handled record \<Longrightarrow> levelno record < level self \<Longrightarrow>
     emit fmt put pid self record q = (None, record, q)"
  by (simp add: emit_def)

lemma emit_put_ok:
  assumes "\<not> is_handled record" and "level self \<le> levelno record"
    and "exc_info record \<noteq> Some ExcFalse"
    and "record' = (case exc_info record of
             Some (ExcTriple ei) \<Rightarrow>
               record\<lparr>exc_text := Some (join [CHR 0x0A] (fmt ei)), exc_info := None\<rparr>
           | _ \<Rightarrow> record)"
    and "put q (pid, record') = Inr q'"
  shows "emit fmt put pid self record q = (None, record', q')"
  using assms by (simp add: emit_def split: option.splits exc_info_value.splits)

lemma emit_put_Full:
  assumes "\<not> is_handled record" and "level self \<le> levelno record"
    and "exc_info record \<noteq> Some ExcFalse"
    and "record' = (case exc_info record of
             Some (ExcTriple ei) \<Rightarrow>
               record\<lparr>exc_text := Some (join [CHR 0x0A] (fmt ei)), exc_info := None\<rparr>
           | _ \<Rightarrow> record)"
    and "put q (pid, record') = Inl Full"
  shows "emit fmt put pid self record q = (None, record', q)"
  using assms by (simp add: emit_def split: option.splits exc_info_value.splits)

lemma emit_closed_channel:
  assumes "q_closed c" and "exc_info record \<noteq> Some ExcFalse"
  shows "\<exists>record'. emit fmt channel_put pid self record c = (None, record', c)"
  using assms
  by (simp add: emit_def channel_put_def split: option.splits exc_info_value.splits)

lemma emit_exc_info_False:
  assumes "\<not> is_handled record" and "level self \<le> levelno record"
    and "exc_info record = Some ExcFalse"
  shows "emit fmt put pid self record q = (Some TypeError, record, q)"
  using assms by (simp add: emit_def)

text \<open>
  The four steps of \<open>emit\<close>, on every record whose \<open>exc_info\<close> is \<open>None\<close> or a triple. A
  record carrying the handled-marker is returned at once, nothing enqueued. Otherwise a
  record below the handler's level is dropped without error. Otherwise a triple is
  rendered into \<open>exc_text\<close> and \<open>exc_info\<close> is cleared; then \<open>(pid, record)\<close> is put on
  the queue, and a put that raises \<open>queue.Full\<close> leaves the queue as it was and raises
  nothing out of \<open>emit\<close>. With the channel of the specification, a put on a closed channel
  changes nothing and \<open>emit\<close> returns normally.
\<close>

lemma emit_steps:
  "(is_handled record \<longrightarrow> emit fmt put pid self record q = (None, record, q))
   \<and> (\<not> is_handled record \<and> levelno record < level self \<longrightarrow>
        emit fmt put pid self record q = (None, record, q))
   \<and> (\<not> is_handled record \<and> level self \<le> levelno record
        \<and> exc_info record \<noteq> Some ExcFalse \<longrightarrow>
        (\<exists>record'.
           (case exc_info record of
              Some (ExcTriple ei) \<Rightarrow>
                record' = record\<lparr>exc_text := Some (join [CHR 0x0A] (fmt ei)), exc_info := None\<rparr>
            | _ \<Rightarrow> record' = record)
           \<and> exc_info record' = None
           \<and> (\<forall>q'. put q (pid, record') = Inr q' \<longrightarrow>
                  emit fmt put pid self record q = (None, record', q'))
           \<and> (put q (pid, record') = Inl Full \<longrightarrow>
                  emit fmt put pid self record q = (None, record', q))))
   \<and> (q_closed c \<and> exc_info record \<noteq> Some ExcFalse \<longrightarrow>
        (\<exists>record'. emit fmt channel_put pid self record c = (None, record', c)))"
proof (intro conjI impI)
  assume "is_handled record"
  then show "emit fmt put pid self record q = (None, record, q)"
    by (rule emit_handled)
next
  assume "\<not> is_handled record \<and> levelno record < level self"
  then show "emit fmt put pid self record q = (None, record, q)"
    by (simp add: emit_below_level)
next
  assume a: "\<not> is_handled record \<and> level self \<le> levelno record
        \<and> exc_info record \<noteq> Some ExcFalse"
  define record' where "record' = (case exc_info record of
             Some (ExcTriple ei) \<Rightarrow>
               record\<lparr>exc_text := Some (join [CHR 0x0A] (fmt ei)), exc_info := None\<rparr>
           | _ \<Rightarrow> record)"
  have shape: "case exc_info record of
              Some (ExcTriple ei) \<Rightarrow>
                record' = record\<lparr>exc_text := Some (join [CHR 0x0A] (fmt ei)), exc_info := None\<rparr>
            | _ \<Rightarrow> record' = record"
    by (simp add: record'_def split: option.splits exc_info_value.splits)
  have cleared: "exc_info record' = None"
    using a by (simp add: record'_def split: option.splits exc_info_value.splits)
  have ok: "\<forall>q'. put q (pid, record') = Inr q' \<longrightarrow>
                  emit fmt put pid self record q = (None, record', q')"
    using a by (auto intro: emit_put_ok [OF _ _ _ record'_def])
  have full: "put q (pid, record') = Inl Full \<longrightarrow>
                  emit fmt put pid self record q = (None, record', q)"
    using a by (auto intro: emit_put_Full [OF _ _ _ record'_def])
  from shape cleared ok full
  show "\<exists>record'.
           (case exc_info record of
              Some (ExcTriple ei) \<Rightarrow>
                record' = record\<lparr>exc_text := Some (join [CHR 0x0A] (fmt ei)), exc_info := None\<rparr>
            | _ \<Rightarrow> record' = record)
           \<and> exc_info record' = None
           \<and> (\<forall>q'. put q (pid, record') = Inr q' \<longrightarrow>
                  emit fmt put pid self record q = (None, record', q'))
           \<and> (put q (pid, record') = Inl Full \<longrightarrow>
                  emit fmt put pid self record q = (None, record', q))"
    by blast
next
  assume "q_closed c \<and> exc_info record \<noteq> Some ExcFalse"
  then show "\<exists>record'. emit fmt channel_put pid self record c = (None, record', c)"
    using emit_closed_channel by blast
qed

text \<open>
  Each branch at a concrete input: a handler at INFO, process 7, a marked record, a DEBUG
  record, and an ERROR record with an exception triple, on an open channel, on a closed
  channel, and on a queue whose put raises \<open>queue.Full\<close>.
\<close>

lemma emit_steps_examples:
  "emit (\<lambda>ei. exc_traceback ei @ [exc_type ei @ '': '' @ exc_value ei]) channel_put 7
        \<lparr>level = 20, output_queue = 0, old_root_level = None\<rparr>
        \<lparr>name = ''X'', levelno = 40, msg = MsgStr ''boom'', exc_info = None,
          exc_text = None, mark = Some True\<rparr>
        \<lparr>q_items = [], q_closed = False\<rparr>
     = (None, \<lparr>name = ''X'', levelno = 40, msg = MsgStr ''boom'', exc_info = None,
          exc_text = None, mark = Some True\<rparr>, \<lparr>q_items = [], q_closed = False\<rparr>)
   \<and> emit (\<lambda>ei. exc_traceback ei @ [exc_type ei @ '': '' @ exc_value ei]) channel_put 7
        \<lparr>level = 20, output_queue = 0, old_root_level = None\<rparr>
        \<lparr>name = ''X'', levelno = 10, msg = MsgStr ''dbg'', exc_info = None,
          exc_text = None, mark = None\<rparr>
        \<lparr>q_items = [], q_closed = False\<rparr>
     = (None, \<lparr>name = ''X'', levelno = 10, msg = MsgStr ''dbg'', exc_info = None,
          exc_text = None, mark = None\<rparr>, \<lparr>q_items = [], q_closed = False\<rparr>)
   \<and> emit (\<lambda>ei. exc_traceback ei @ [exc_type ei @ '': '' @ exc_value ei]) channel_put 7
        \<lparr>level = 20, output_queue = 0, old_root_level = None\<rparr>
        \<lparr>name = ''X'', levelno = 40, msg = MsgStr ''boom'',
          exc_info = Some (ExcTriple (ExcInfo ''KeyError'' ''k'' [''Traceback''])),
          exc_text = None, mark = None\<rparr>
        \<lparr>q_items = [], q_closed = False\<rparr>
     = (None,
        \<lparr>name = ''X'', levelno = 40, msg = MsgStr ''boom'', exc_info = None,
          exc_text = Some (''Traceback'' @ [CHR 0x0A] @ ''KeyError: k''), mark = None\<rparr>,
        \<lparr>q_items = [(7, \<lparr>name = ''X'', levelno = 40, msg = MsgStr ''boom'', exc_info = None,
          exc_text = Some (''Traceback'' @ [CHR 0x0A] @ ''KeyError: k''), mark = None\<rparr>)],
          q_closed = False\<rparr>)
   \<and> emit (\<lambda>ei. exc_traceback ei @ [exc_type ei @ '': '' @ exc_value ei]) channel_put 7
        \<lparr>level = 20, output_queue = 0, old_root_level = None\<rparr>
        \<lparr>name = ''X'', levelno = 40, msg = MsgStr ''boom'',
          exc_info = Some (ExcTriple (ExcInfo ''KeyError'' ''k'' [''Traceback''])),
          exc_text = None, mark = None\<rparr>
        \<lparr>q_items = [], q_closed = True\<rparr>
     = (None,
        \<lparr>name = ''X'', levelno = 40, msg = MsgStr ''boom'', exc_info = None,
          exc_text = Some (''Traceback'' @ [CHR 0x0A] @ ''KeyError: k''), mark = None\<rparr>,
        \<lparr>q_items = [], q_closed = True\<rparr>)
   \<and> emit (\<lambda>ei. exc_traceback ei @ [exc_type ei @ '': '' @ exc_value ei])
        (\<lambda>q item. Inl Full) 7
        \<lparr>level = 20, output_queue = 0, old_root_level = None\<rparr>
        \<lparr>name = ''X'', levelno = 40, msg = MsgStr ''boom'', exc_info = None,
          exc_text = None, mark = None\<rparr>
        (5 :: nat)
     = (None, \<lparr>name = ''X'', levelno = 40, msg = MsgStr ''boom'', exc_info = None,
          exc_text = None, mark = None\<rparr>, 5)"
  by (simp add: is_handled_def channel_put_def emit_def)

text \<open>
  C5 does not hold of \<open>emit\<close> on every record. The claim has a record without exception
  information enqueued as it is, and nothing raised to the log call site. With a
  \<open>LogregatorHandler\<close> at INFO installed, \<open>logger.info("hello", exc_info=False)\<close> in
  process 4242 makes a record whose \<open>exc_info\<close> is \<open>False\<close>: it is not marked and not
  below the level, the test \<open>is not None\<close> lets it into the rendering step, and \<open>emit\<close>
  raises \<open>TypeError\<close>, whatever the queue and the renderer; nothing is enqueued and the
  record is left as it was.
\<close>

theorem emit_exc_info_False_raises:
  "emit fmt put 4242 \<lparr>level = 20, output_queue = 0, old_root_level = None\<rparr>
     \<lparr>name = ''X'', levelno = 20, msg = MsgStr ''hello'', exc_info = Some ExcFalse,
       exc_text = None, mark = None\<rparr> q
   = (Some TypeError,
      \<lparr>name = ''X'', levelno = 20, msg = MsgStr ''hello'', exc_info = Some ExcFalse,
        exc_text = None, mark = None\<rparr>, q)"
  by (simp add: emit_def is_handled_def)

section \<open>install and uninstall: properties\<close>

lemma install_registered:
  "self_id \<in> set (root_handlers root) \<Longrightarrow> install self_id self root = (self, root)"
  by (simp add: install_def)

lemma install_fresh:
  assumes "self_id \<notin> set (root_handlers root)"
  shows "install self_id self root =
           (self\<lparr>old_root_level := Some (root_level root)\<rparr>,
            root\<lparr>root_level := NOTSET + 1, root_handlers := root_handlers root @ [self_id]\<rparr>)"
  using assms by (simp add: install_def setLevel_def addHandler_def)

lemma uninstall_after_install:
  assumes "self_id \<notin> set (root_handlers root)"
    and "install self_id self root = (self', root')"
  shows "uninstall self_id self' root' = Inr root"
proof -
  from assms have s: "self' = self\<lparr>old_root_level := Some (root_level root)\<rparr>"
    and r: "root' = root\<lparr>root_level := NOTSET + 1, root_handlers := root_handlers root @ [self_id]\<rparr>"
    by (simp_all add: install_fresh)
  have "remove1 self_id (root_handlers root @ [self_id]) = root_handlers root"
    using assms(1) by (simp add: remove1_append)
  then show ?thesis
    by (simp add: s r uninstall_def removeHandler_def setLevel_def)
qed

text \<open>
  C7: \<open>install\<close> changes nothing when the handler is already registered on the root
  logger. Otherwise it records the root level in \<open>_old_root_level\<close>, sets the root level
  to \<open>NOTSET + 1\<close> and appends the handler to the root handlers. \<open>uninstall\<close> after such an
  \<open>install\<close> raises nothing, removes the handler and restores the recorded level: the
  root logger is back in the state it had before \<open>install\<close>.
\<close>

theorem install_uninstall_roundtrip:
  "(self_id \<in> set (root_handlers root) \<longrightarrow> install self_id self root = (self, root))
   \<and> (self_id \<notin> set (root_handlers root) \<longrightarrow>
        (\<exists>self' root'.
           install self_id self root = (self', root')
           \<and> old_root_level self' = Some (root_level root)
           \<and> root_level root' = NOTSET + 1
           \<and> root_handlers root' = root_handlers root @ [self_id]
           \<and> install self_id self' root' = (self', root')
           \<and> uninstall self_id self' root' = Inr root))"
proof (intro conjI impI)
  assume "self_id \<in> set (root_handlers root)"
  then show "install self_id self root = (self, root)"
    by (rule install_registered)
next
  assume fresh: "self_id \<notin> set (root_handlers root)"
  obtain self' root' where i: "install self_id self root = (self', root')"
    by (cases "install self_id self root")
  from fresh i have s: "self' = self\<lparr>old_root_level := Some (root_level root)\<rparr>"
    and r: "root' = root\<lparr>root_level := NOTSET + 1, root_handlers := root_handlers root @ [self_id]\<rparr>"
    by (simp_all add: install_fresh)
  have again: "install self_id self' root' = (self', root')"
    by (rule install_registered) (simp add: r)
  have undone: "uninstall self_id self' root' = Inr root"
    using fresh i by (rule uninstall_after_install)
  from i s r again undone
  show "\<exists>self' root'.
           install self_id self root = (self', root')
           \<and> old_root_level self' = Some (root_level root)
           \<and> root_level root' = NOTSET + 1
           \<and> root_handlers root' = root_handlers root @ [self_id]
           \<and> install self_id self' root' = (self', root')
           \<and> uninstall self_id self' root' = Inr root"
    by simp
qed

text \<open>
  A new handler with identity 5 on a root logger at WARNING that has the handlers 1 and 2;
  and a second \<open>install\<close> of the handler once it is registered.
\<close>

theorem install_uninstall_roundtrip_witness:
  "5 \<notin> set (root_handlers \<lparr>root_handlers = [1, 2], root_level = 30\<rparr>)
   \<and> install 5 (LogregatorHandler_init 20 9) \<lparr>root_handlers = [1, 2], root_level = 30\<rparr>
     = (\<lparr>level = 20, output_queue = 9, old_root_level = Some 30\<rparr>,
        \<lparr>root_handlers = [1, 2, 5], root_level = 1\<rparr>)
   \<and> uninstall 5 \<lparr>level = 20, output_queue = 9, old_root_level = Some 30\<rparr>
        \<lparr>root_handlers = [1, 2, 5], root_level = 1\<rparr>
     = Inr \<lparr>root_handlers = [1, 2], root_level = 30\<rparr>
   \<and> 5 \<in> set (root_handlers \<lparr>root_handlers = [1, 2, 5], root_level = 1\<rparr>)
   \<and> install 5 \<lparr>level = 20, output_queue = 9, old_root_level = Some 30\<rparr>
        \<lparr>root_handlers = [1, 2, 5], root_level = 1\<rparr>
     = (\<lparr>level = 20, output_queue = 9, old_root_level = Some 30\<rparr>,
        \<lparr>root_handlers = [1, 2, 5], root_level = 1\<rparr>)"
  using
    install_uninstall_roundtrip [of 5 "\<lparr>root_handlers = [1, 2], root_level = 30\<rparr>"
      "LogregatorHandler_init 20 9"]
    install_uninstall_roundtrip [of 5 "\<lparr>root_handlers = [1, 2, 5], root_level = 1\<rparr>"
      "\<lparr>level = 20, output_queue = 9, old_root_level = Some 30\<rparr>"]
  by (simp add: install_def uninstall_def setLevel_def addHandler_def removeHandler_def
      LogregatorHandler_init_def NOTSET_def)

text \<open>
  C2, as the code has it: \<open>uninstall\<close> raises, and then \<open>RuntimeError\<close>, exactly when the
  handler is registered on the root logger while it holds no recorded root level. On a
  handler that is not registered, as one that was never installed, \<open>uninstall\<close> returns
  normally and changes nothing.
\<close>

theorem uninstall_raises_iff:
  "(uninstall self_id self root = Inl RuntimeError \<longleftrightarrow>
      self_id \<in> set (root_handlers root) \<and> old_root_level self = None)
   \<and> (\<forall>e. uninstall self_id self root = Inl e \<longrightarrow> e = RuntimeError)
   \<and> (self_id \<notin> set (root_handlers root) \<longrightarrow> uninstall self_id self root = Inr root)"
  by (auto simp: uninstall_def split: option.splits)

theorem uninstall_raises_iff_witness:
  "uninstall 5 (LogregatorHandler_init 20 9) \<lparr>root_handlers = [1, 5], root_level = 30\<rparr>
     = Inl RuntimeError
   \<and> 5 \<notin> set (root_handlers \<lparr>root_handlers = [1], root_level = 30\<rparr>)
   \<and> uninstall 5 (LogregatorHandler_init 20 9) \<lparr>root_handlers = [1], root_level = 30\<rparr>
     = Inr \<lparr>root_handlers = [1], root_level = 30\<rparr>"
  using
    uninstall_raises_iff [of 5 "LogregatorHandler_init 20 9"
      "\<lparr>root_handlers = [1, 5], root_level = 30\<rparr>"]
    uninstall_raises_iff [of 5 "LogregatorHandler_init 20 9"
      "\<lparr>root_handlers = [1], root_level = 30\<rparr>"]
  by (simp add: LogregatorHandler_init_def)

text \<open>
  The claim as the specification states it fails: a handler just constructed, never
  installed, on a root logger that does not hold it; \<open>uninstall\<close> returns normally.
\<close>

theorem uninstall_never_installed_counterexample:
  "old_root_level (LogregatorHandler_init 20 9) = None
   \<and> uninstall 5 (LogregatorHandler_init 20 9) \<lparr>root_handlers = [], root_level = 30\<rparr>
       = Inr \<lparr>root_handlers = [], root_level = 30\<rparr>
   \<and> uninstall 5 (LogregatorHandler_init 20 9) \<lparr>root_handlers = [], root_level = 30\<rparr>
       \<noteq> Inl RuntimeError"
  by (simp add: uninstall_def LogregatorHandler_init_def)

section \<open>The process spawn interceptor: properties\<close>

lemma new_handlers_spec:
  "new_handlers snap w = (hs, w1) \<Longrightarrow>
     length hs = length snap \<and> distinct hs
     \<and> (\<forall>h \<in> set hs. next_id w \<le> h \<and> h < next_id w + length snap)
     \<and> logging_root w1 = logging_root w \<and> queues w1 = queues w \<and> Process w1 = Process w
     \<and> next_id w1 = next_id w + length snap
     \<and> map (handler_objs w1) hs = map (\<lambda>(lvl, q). Some (LogregatorHandler_init lvl q)) snap
     \<and> (\<forall>h. h < next_id w \<longrightarrow> handler_objs w1 h = handler_objs w h)"
proof (induction snap arbitrary: w hs w1)
  case Nil
  then show ?case by simp
next
  case (Cons a rest)
  obtain lvl q where a: "a = (lvl, q)" by (cases a)
  define w' where "w' = w\<lparr>handler_objs := (handler_objs w)(next_id w \<mapsto> LogregatorHandler_init lvl q),
        next_id := Suc (next_id w)\<rparr>"
  obtain hs' w2 where r: "new_handlers rest w' = (hs', w2)" by (cases "new_handlers rest w'")
  from Cons.prems have eq: "hs = next_id w # hs'" "w1 = w2"
    by (simp_all add: a new_LogregatorHandler_def w'_def [symmetric] r)
  note ih = Cons.IH [OF r]
  have nid: "next_id w' = Suc (next_id w)" by (simp add: w'_def)
  have keep: "handler_objs w2 (next_id w) = Some (LogregatorHandler_init lvl q)"
    using ih nid by (simp add: w'_def)
  have "length hs = length (a # rest) \<and> distinct hs
     \<and> (\<forall>h \<in> set hs. next_id w \<le> h \<and> h < next_id w + length (a # rest))"
    using ih nid eq by fastforce
  moreover have "map (handler_objs w1) hs = map (\<lambda>(lvl, q). Some (LogregatorHandler_init lvl q)) (a # rest)"
    using ih keep eq a by simp
  moreover have "\<forall>h. h < next_id w \<longrightarrow> handler_objs w1 h = handler_objs w h"
    using ih nid eq by (simp add: w'_def)
  moreover have "logging_root w1 = logging_root w \<and> queues w1 = queues w \<and> Process w1 = Process w
     \<and> next_id w1 = next_id w + length (a # rest)"
    using ih nid eq by (simp add: w'_def)
  ultimately show ?case by simp
qed

lemma call_install_fresh:
  assumes "handler_objs w h = Some obj" and "h \<notin> set (root_handlers (logging_root w))"
  shows "call_install h w =
           Inr (w\<lparr>logging_root := (logging_root w)\<lparr>root_level := NOTSET + 1,
                                   root_handlers := root_handlers (logging_root w) @ [h]\<rparr>,
                  handler_objs := (handler_objs w)(h \<mapsto> obj\<lparr>old_root_level := Some (root_level (logging_root w))\<rparr>)\<rparr>)"
  using assms by (simp add: call_install_def install_def setLevel_def addHandler_def)

lemma install_each_spec:
  assumes "distinct hs"
    and "set hs \<inter> set (root_handlers (logging_root w)) = {}"
    and "\<forall>h \<in> set hs. handler_objs w h \<noteq> None"
  shows "\<exists>w2. install_each hs w = (None, w2)
     \<and> root_handlers (logging_root w2) = root_handlers (logging_root w) @ hs
     \<and> (\<forall>h \<in> set hs. \<exists>obj lvl. handler_objs w h = Some obj
            \<and> handler_objs w2 h = Some (obj\<lparr>old_root_level := Some lvl\<rparr>))
     \<and> (\<forall>h. h \<notin> set hs \<longrightarrow> handler_objs w2 h = handler_objs w h)
     \<and> queues w2 = queues w \<and> Process w2 = Process w \<and> next_id w2 = next_id w"
  using assms
proof (induction hs arbitrary: w)
  case Nil
  then show ?case by simp
next
  case (Cons h hs)
  from Cons.prems obtain obj where obj: "handler_objs w h = Some obj" by auto
  from Cons.prems have fresh: "h \<notin> set (root_handlers (logging_root w))" by auto
  define w1 where "w1 = w\<lparr>logging_root := (logging_root w)\<lparr>root_level := NOTSET + 1,
                                   root_handlers := root_handlers (logging_root w) @ [h]\<rparr>,
                  handler_objs := (handler_objs w)(h \<mapsto> obj\<lparr>old_root_level := Some (root_level (logging_root w))\<rparr>)\<rparr>"
  have ci: "call_install h w = Inr w1"
    unfolding w1_def using obj fresh by (rule call_install_fresh)
  have p1: "distinct hs" using Cons.prems by simp
  have p2: "set hs \<inter> set (root_handlers (logging_root w1)) = {}"
    using Cons.prems by (auto simp: w1_def)
  have p3: "\<forall>k \<in> set hs. handler_objs w1 k \<noteq> None"
    using Cons.prems by (auto simp: w1_def)
  from Cons.IH [OF p1 p2 p3] obtain w2 where
    ih: "install_each hs w1 = (None, w2)"
      "root_handlers (logging_root w2) = root_handlers (logging_root w1) @ hs"
      "\<forall>k \<in> set hs. \<exists>obj lvl. handler_objs w1 k = Some obj
            \<and> handler_objs w2 k = Some (obj\<lparr>old_root_level := Some lvl\<rparr>)"
      "\<forall>k. k \<notin> set hs \<longrightarrow> handler_objs w2 k = handler_objs w1 k"
      "queues w2 = queues w1 \<and> Process w2 = Process w1 \<and> next_id w2 = next_id w1"
    by blast
  have hk: "h \<notin> set hs" using Cons.prems by simp
  have a: "install_each (h # hs) w = (None, w2)" using ci ih(1) by simp
  have b: "root_handlers (logging_root w2) = root_handlers (logging_root w) @ (h # hs)"
    using ih(2) by (simp add: w1_def)
  have c: "\<forall>k \<in> set (h # hs). \<exists>obj lvl. handler_objs w k = Some obj
            \<and> handler_objs w2 k = Some (obj\<lparr>old_root_level := Some lvl\<rparr>)"
  proof
    fix k assume "k \<in> set (h # hs)"
    then consider "k = h" | "k \<in> set hs" "k \<noteq> h" by auto
    then show "\<exists>obj lvl. handler_objs w k = Some obj
            \<and> handler_objs w2 k = Some (obj\<lparr>old_root_level := Some lvl\<rparr>)"
    proof cases
      case 1
      have "handler_objs w2 h = Some (obj\<lparr>old_root_level := Some (root_level (logging_root w))\<rparr>)"
        using ih(4) hk by (simp add: w1_def)
      with obj 1 show ?thesis by blast
    next
      case 2
      have same: "handler_objs w1 k = handler_objs w k"
        using 2 by (simp add: w1_def)
      from ih(3) 2(1) obtain obj' lvl' where "handler_objs w1 k = Some obj'"
        "handler_objs w2 k = Some (obj'\<lparr>old_root_level := Some lvl'\<rparr>)"
        by blast
      with same show ?thesis by metis
    qed
  qed
  have d: "\<forall>k. k \<notin> set (h # hs) \<longrightarrow> handler_objs w2 k = handler_objs w k"
    using ih(4) by (simp add: w1_def)
  have e: "queues w2 = queues w \<and> Process w2 = Process w \<and> next_id w2 = next_id w"
    using ih(5) by (simp add: w1_def)
  from a b c d e show ?case by blast
qed

lemma call_uninstall_ok:
  assumes "handler_objs w h = Some obj" and "old_root_level obj = Some lvl"
  shows "\<exists>w1. call_uninstall h w = Inr w1
     \<and> root_handlers (logging_root w1) = remove1 h (root_handlers (logging_root w))
     \<and> handler_objs w1 = handler_objs w \<and> queues w1 = queues w
     \<and> Process w1 = Process w \<and> next_id w1 = next_id w"
  using assms
  by (auto simp: call_uninstall_def uninstall_def removeHandler_def setLevel_def remove1_idem)

lemma uninstall_each_spec:
  assumes "\<forall>h \<in> set hs. \<exists>obj lvl. handler_objs w h = Some obj \<and> old_root_level obj = Some lvl"
    and "distinct (root_handlers (logging_root w))"
  shows "\<exists>w4. uninstall_each hs w = (None, w4)
     \<and> set (root_handlers (logging_root w4)) = set (root_handlers (logging_root w)) - set hs
     \<and> distinct (root_handlers (logging_root w4))
     \<and> handler_objs w4 = handler_objs w \<and> queues w4 = queues w
     \<and> Process w4 = Process w \<and> next_id w4 = next_id w"
  using assms
proof (induction hs arbitrary: w)
  case Nil
  then show ?case by simp
next
  case (Cons h hs)
  from Cons.prems obtain obj lvl where o: "handler_objs w h = Some obj" "old_root_level obj = Some lvl"
    by auto
  from call_uninstall_ok [OF o] obtain w1 where
    w1: "call_uninstall h w = Inr w1"
      "root_handlers (logging_root w1) = remove1 h (root_handlers (logging_root w))"
      "handler_objs w1 = handler_objs w" "queues w1 = queues w"
      "Process w1 = Process w" "next_id w1 = next_id w"
    by blast
  have p1: "\<forall>k \<in> set hs. \<exists>obj lvl. handler_objs w1 k = Some obj \<and> old_root_level obj = Some lvl"
    using Cons.prems w1(3) by simp
  have p2: "distinct (root_handlers (logging_root w1))"
    using Cons.prems w1(2) by simp
  from Cons.IH [OF p1 p2] obtain w4 where
    ih: "uninstall_each hs w1 = (None, w4)"
      "set (root_handlers (logging_root w4)) = set (root_handlers (logging_root w1)) - set hs"
      "distinct (root_handlers (logging_root w4))"
      "handler_objs w4 = handler_objs w1" "queues w4 = queues w1"
      "Process w4 = Process w1" "next_id w4 = next_id w1"
    by blast
  have "uninstall_each (h # hs) w = (None, w4)" using w1(1) ih(1) by simp
  moreover have "set (root_handlers (logging_root w4)) = set (root_handlers (logging_root w)) - set (h # hs)"
    using ih(2) w1(2) Cons.prems(2) by auto
  ultimately show ?case using ih w1 by simp
qed


lemma snapshot_complete:
  "h \<in> set (root_handlers (logging_root parent)) \<Longrightarrow> handler_objs parent h = Some obj \<Longrightarrow>
     (level obj, output_queue obj) \<in> set (logregator_handlers (LogregatorProcess_init parent))"
  by (force simp: LogregatorProcess_init_def)

lemma snapshot_sound:
  "p \<in> set (logregator_handlers (LogregatorProcess_init parent)) \<Longrightarrow>
     \<exists>h \<in> set (root_handlers (logging_root parent)).
        \<exists>obj. handler_objs parent h = Some obj \<and> p = (level obj, output_queue obj)"
  by (auto simp: LogregatorProcess_init_def split: option.splits) metis

lemma snapshot_length:
  "length (logregator_handlers (LogregatorProcess_init parent))
     = length (filter (\<lambda>h. handler_objs parent h \<noteq> None) (root_handlers (logging_root parent)))"
proof -
  have "length (concat (map (\<lambda>h. case handler_objs parent h of
                             None \<Rightarrow> []
                           | Some obj \<Rightarrow> [(level obj, output_queue obj)]) hs))
        = length (filter (\<lambda>h. handler_objs parent h \<noteq> None) hs)" for hs
    by (induction hs) (auto split: option.splits)
  then show ?thesis by (simp add: LogregatorProcess_init_def)
qed

lemma snapshot_empty:
  "\<forall>h \<in> set (root_handlers (logging_root parent)). handler_objs parent h = None \<Longrightarrow>
     logregator_handlers (LogregatorProcess_init parent) = []"
  by (simp add: LogregatorProcess_init_def)

lemma run_no_handlers:
  "logregator_handlers self = [] \<Longrightarrow> run self target w = target w"
  by (simp add: run_def split: prod.splits)

lemma run_scoped:
  assumes wf: "wf_world w"
    and nh: "new_handlers (logregator_handlers self) w = (hs, w1)"
    and ie: "install_each hs w1 = (e, w2)"
  shows "e = None"
    and "length hs = length (logregator_handlers self)"
    and "\<forall>h \<in> set hs. h \<in> set (root_handlers (logging_root w2))
                        \<and> h \<notin> set (root_handlers (logging_root w))"
    and "map (\<lambda>h. map_option (\<lambda>obj. (level obj, output_queue obj)) (handler_objs w2 h)) hs
           = map Some (logregator_handlers self)"
    and "\<forall>r w3. target w2 = (r, w3) \<and> distinct (root_handlers (logging_root w3))
            \<and> (\<forall>h \<in> set hs. handler_objs w3 h = handler_objs w2 h)
          \<longrightarrow> (\<exists>w4. run self target w = (r, w4)
                 \<and> set (root_handlers (logging_root w4)) = set (root_handlers (logging_root w3)) - set hs)"
proof -
  note a = new_handlers_spec [OF nh]
  have len: "length hs = length (logregator_handlers self)" and dist: "distinct hs"
    and rng: "\<forall>h \<in> set hs. next_id w \<le> h"
    and root1: "logging_root w1 = logging_root w"
    and objs1: "map (handler_objs w1) hs
        = map (\<lambda>(lvl, q). Some (LogregatorHandler_init lvl q)) (logregator_handlers self)"
    using a by auto
  have old: "\<forall>h \<in> set (root_handlers (logging_root w)). h < next_id w"
    using wf by (simp add: wf_world_def)
  have disj: "set hs \<inter> set (root_handlers (logging_root w1)) = {}"
    using rng old root1 by fastforce
  have present: "\<forall>h \<in> set hs. handler_objs w1 h \<noteq> None"
  proof
    fix h assume "h \<in> set hs"
    then obtain i where i: "i < length hs" "hs ! i = h" by (auto simp: in_set_conv_nth)
    from objs1 have "map (handler_objs w1) hs ! i
        = map (\<lambda>(lvl, q). Some (LogregatorHandler_init lvl q)) (logregator_handlers self) ! i"
      by simp
    with i len show "handler_objs w1 h \<noteq> None"
      by (auto split: prod.splits)
  qed
  from install_each_spec [OF dist disj present] ie obtain
    b: "e = None"
      "root_handlers (logging_root w2) = root_handlers (logging_root w1) @ hs"
      "\<forall>h \<in> set hs. \<exists>obj lvl. handler_objs w1 h = Some obj
            \<and> handler_objs w2 h = Some (obj\<lparr>old_root_level := Some lvl\<rparr>)"
    by auto
  show "e = None" by (rule b(1))
  show "length hs = length (logregator_handlers self)" by (rule len)
  show "\<forall>h \<in> set hs. h \<in> set (root_handlers (logging_root w2))
                        \<and> h \<notin> set (root_handlers (logging_root w))"
    using b(2) disj root1 by auto
  have same: "map_option (\<lambda>obj. (level obj, output_queue obj)) (handler_objs w2 h)
              = map_option (\<lambda>obj. (level obj, output_queue obj)) (handler_objs w1 h)"
    if "h \<in> set hs" for h
  proof -
    from b(3) that obtain obj lvl where "handler_objs w1 h = Some obj"
      "handler_objs w2 h = Some (obj\<lparr>old_root_level := Some lvl\<rparr>)" by blast
    then show ?thesis by simp
  qed
  have "map (\<lambda>h. map_option (\<lambda>obj. (level obj, output_queue obj)) (handler_objs w2 h)) hs
        = map (map_option (\<lambda>obj. (level obj, output_queue obj))) (map (handler_objs w1) hs)"
    using same by simp
  also have "\<dots> = map Some (logregator_handlers self)"
    unfolding objs1 by (simp add: LogregatorHandler_init_def split_def)
  finally show "map (\<lambda>h. map_option (\<lambda>obj. (level obj, output_queue obj)) (handler_objs w2 h)) hs
           = map Some (logregator_handlers self)" .
  show "\<forall>r w3. target w2 = (r, w3) \<and> distinct (root_handlers (logging_root w3))
            \<and> (\<forall>h \<in> set hs. handler_objs w3 h = handler_objs w2 h)
          \<longrightarrow> (\<exists>w4. run self target w = (r, w4)
                 \<and> set (root_handlers (logging_root w4)) = set (root_handlers (logging_root w3)) - set hs)"
  proof (intro allI impI)
    fix r w3
    assume t: "target w2 = (r, w3) \<and> distinct (root_handlers (logging_root w3))
            \<and> (\<forall>h \<in> set hs. handler_objs w3 h = handler_objs w2 h)"
    have lv: "\<forall>h \<in> set hs. \<exists>obj lvl. handler_objs w3 h = Some obj \<and> old_root_level obj = Some lvl"
    proof
      fix h assume h: "h \<in> set hs"
      from b(3) h obtain obj lvl where "handler_objs w2 h = Some (obj\<lparr>old_root_level := Some lvl\<rparr>)"
        by blast
      with t h show "\<exists>obj lvl. handler_objs w3 h = Some obj \<and> old_root_level obj = Some lvl"
        by simp
    qed
    from t have d3: "distinct (root_handlers (logging_root w3))" by simp
    from uninstall_each_spec [OF lv d3] obtain w4 where
      u: "uninstall_each hs w3 = (None, w4)"
        "set (root_handlers (logging_root w4)) = set (root_handlers (logging_root w3)) - set hs"
      by blast
    have "run self target w = (r, w4)"
      using nh ie b(1) t u(1) by (simp add: run_def)
    with u(2) show "\<exists>w4. run self target w = (r, w4)
                 \<and> set (root_handlers (logging_root w4)) = set (root_handlers (logging_root w3)) - set hs"
      by blast
  qed
qed

text \<open>
  C6. The snapshot taken by \<open>__init__\<close> in the world \<open>parent\<close> holds the pair
  \<open>(level, output_queue)\<close> of every \<open>LogregatorHandler\<close> among the root handlers and
  nothing else, one entry for each; it is empty when there is none, and \<open>run\<close> is then
  the target alone. In a process whose world is \<open>w\<close>, \<open>run\<close> gives each entry a new
  handler: when the target is entered (world \<open>w2\<close>) every one of them is registered on
  the root logger and carries the entry's level and queue. Whether the target returns
  normally (\<open>r = None\<close>) or raises (\<open>r = Some exc\<close>), as long as it leaves the new handler
  objects alone and the root handler list without duplicates, \<open>run\<close> ends with the
  target's outcome and with every one of the new handlers removed from the root logger.
\<close>

theorem run_installs_snapshot_and_uninstalls:
  assumes "wf_world w"
    and "new_handlers (logregator_handlers self) w = (hs, w1)"
    and "install_each hs w1 = (e, w2)"
  shows "(\<forall>h obj. h \<in> set (root_handlers (logging_root parent)) \<and> handler_objs parent h = Some obj \<longrightarrow>
            (level obj, output_queue obj) \<in> set (logregator_handlers (LogregatorProcess_init parent)))
     \<and> (\<forall>p \<in> set (logregator_handlers (LogregatorProcess_init parent)).
            \<exists>h \<in> set (root_handlers (logging_root parent)).
              \<exists>obj. handler_objs parent h = Some obj \<and> p = (level obj, output_queue obj))
     \<and> length (logregator_handlers (LogregatorProcess_init parent))
           = length (filter (\<lambda>h. handler_objs parent h \<noteq> None) (root_handlers (logging_root parent)))
     \<and> ((\<forall>h \<in> set (root_handlers (logging_root parent)). handler_objs parent h = None) \<longrightarrow>
            logregator_handlers (LogregatorProcess_init parent) = []
            \<and> run (LogregatorProcess_init parent) target w = target w)
     \<and> e = None
     \<and> length hs = length (logregator_handlers self)
     \<and> (\<forall>h \<in> set hs. h \<in> set (root_handlers (logging_root w2))
                        \<and> h \<notin> set (root_handlers (logging_root w)))
     \<and> map (\<lambda>h. map_option (\<lambda>obj. (level obj, output_queue obj)) (handler_objs w2 h)) hs
           = map Some (logregator_handlers self)
     \<and> (\<forall>r w3. target w2 = (r, w3) \<and> distinct (root_handlers (logging_root w3))
            \<and> (\<forall>h \<in> set hs. handler_objs w3 h = handler_objs w2 h)
          \<longrightarrow> (\<exists>w4. run self target w = (r, w4)
                 \<and> set (root_handlers (logging_root w4)) = set (root_handlers (logging_root w3)) - set hs))"
proof -
  have s1: "\<forall>h obj. h \<in> set (root_handlers (logging_root parent)) \<and> handler_objs parent h = Some obj \<longrightarrow>
            (level obj, output_queue obj) \<in> set (logregator_handlers (LogregatorProcess_init parent))"
    using snapshot_complete by blast
  have s2: "\<forall>p \<in> set (logregator_handlers (LogregatorProcess_init parent)).
            \<exists>h \<in> set (root_handlers (logging_root parent)).
              \<exists>obj. handler_objs parent h = Some obj \<and> p = (level obj, output_queue obj)"
    using snapshot_sound by blast
  have s3: "(\<forall>h \<in> set (root_handlers (logging_root parent)). handler_objs parent h = None) \<longrightarrow>
            logregator_handlers (LogregatorProcess_init parent) = []
            \<and> run (LogregatorProcess_init parent) target w = target w"
    using snapshot_empty run_no_handlers by blast
  note r = run_scoped [OF assms]
  from s1 s2 snapshot_length [of parent] s3 r(1) r(2) r(3) r(4) r(5) [of target]
  show ?thesis by (intro conjI)
qed

text \<open>
  A worker spawned from \<open>parent_world\<close> into a process in which nothing is installed:
  one handler is installed for the parent's one \<open>LogregatorHandler\<close>, and removed again
  both when the target raises and when it returns.
\<close>

theorem run_installs_snapshot_and_uninstalls_witness:
  "wf_world fresh_world
   \<and> logregator_handlers (LogregatorProcess_init parent_world) = [(20, 1)]
   \<and> fst (new_handlers (logregator_handlers (LogregatorProcess_init parent_world)) fresh_world) = [0]
   \<and> fst (install_each [0]
        (snd (new_handlers (logregator_handlers (LogregatorProcess_init parent_world)) fresh_world)))
       = None
   \<and> root_handlers (logging_root (snd (install_each [0]
        (snd (new_handlers (logregator_handlers (LogregatorProcess_init parent_world)) fresh_world)))))
       = [0]
   \<and> fst (run (LogregatorProcess_init parent_world) (\<lambda>w. (Some (OtherError ''boom''), w)) fresh_world)
       = Some (OtherError ''boom'')
   \<and> root_handlers (logging_root (snd
         (run (LogregatorProcess_init parent_world) (\<lambda>w. (Some (OtherError ''boom''), w)) fresh_world)))
       = []
   \<and> fst (run (LogregatorProcess_init parent_world) (\<lambda>w. (None, w)) fresh_world) = None
   \<and> root_handlers (logging_root (snd
         (run (LogregatorProcess_init parent_world) (\<lambda>w. (None, w)) fresh_world)))
       = []"
proof -
  have wf: "wf_world fresh_world"
    by (simp add: wf_world_def fresh_world_def)
  have nh: "new_handlers (logregator_handlers (LogregatorProcess_init parent_world)) fresh_world
      = (fst (new_handlers (logregator_handlers (LogregatorProcess_init parent_world)) fresh_world),
         snd (new_handlers (logregator_handlers (LogregatorProcess_init parent_world)) fresh_world))"
    by simp
  have ie: "install_each
       (fst (new_handlers (logregator_handlers (LogregatorProcess_init parent_world)) fresh_world))
       (snd (new_handlers (logregator_handlers (LogregatorProcess_init parent_world)) fresh_world))
      = (fst (install_each
           (fst (new_handlers (logregator_handlers (LogregatorProcess_init parent_world)) fresh_world))
           (snd (new_handlers (logregator_handlers (LogregatorProcess_init parent_world)) fresh_world))),
         snd (install_each
           (fst (new_handlers (logregator_handlers (LogregatorProcess_init parent_world)) fresh_world))
           (snd (new_handlers (logregator_handlers (LogregatorProcess_init parent_world)) fresh_world))))"
    by simp
  note t1 = run_installs_snapshot_and_uninstalls [OF wf nh ie, of parent_world
      "\<lambda>w. (Some (OtherError ''boom''), w)"]
  note t2 = run_installs_snapshot_and_uninstalls [OF wf nh ie, of parent_world
      "\<lambda>w. (None, w)"]
  have ev: "logregator_handlers (LogregatorProcess_init parent_world) = [(20, 1)]"
    by (simp add: LogregatorProcess_init_def parent_world_def)
  show ?thesis
    using wf t1 t2
    by (simp add: ev run_def new_LogregatorHandler_def call_install_def call_uninstall_def
        install_def uninstall_def setLevel_def addHandler_def removeHandler_def
        LogregatorHandler_init_def fresh_world_def NOTSET_def)
qed

section \<open>The session: stop and restart\<close>

lemma dict_items_member: "(c, v) \<in> set (dict_items d) \<longleftrightarrow> d c = Some v"
  by (cases c) (auto simp: dict_items_def split: option.splits)

lemma dict_items_distinct: "distinct (map fst (dict_items d))"
  by (auto simp: dict_items_def split: option.splits)

lemma save_and_substitute_spec:
  "distinct cs \<Longrightarrow>
     save_and_substitute cs old P =
       ((\<lambda>c. if c \<in> set cs then Some (P c) else old c),
        (\<lambda>c. if c \<in> set cs then Some LogregatorProcess_type else P c))"
proof (induction cs arbitrary: old P)
  case Nil
  then show ?case by simp
next
  case (Cons c cs)
  then have "save_and_substitute cs (old(c \<mapsto> P c)) (P(c := Some LogregatorProcess_type)) =
       ((\<lambda>x. if x \<in> set cs then Some ((P(c := Some LogregatorProcess_type)) x) else (old(c \<mapsto> P c)) x),
        (\<lambda>x. if x \<in> set cs then Some LogregatorProcess_type else (P(c := Some LogregatorProcess_type)) x))"
    by simp
  moreover have "c \<notin> set cs" using Cons.prems by simp
  ultimately show ?case by (auto intro!: ext)
qed

lemma stop_not_started: "\<not> started self \<Longrightarrow> stop self w = (None, self, w)"
  by (simp add: stop_def)

lemma stop_leaves_not_started: "stop self w = (e, self', w') \<Longrightarrow> \<not> started self'"
  by (auto simp: stop_def started_def Let_def split: if_splits option.splits sum.splits)

lemma call_uninstall_wf: "wf_world w \<Longrightarrow> call_uninstall h w = Inr w' \<Longrightarrow> wf_world w'"
  by (auto simp: call_uninstall_def uninstall_def removeHandler_def setLevel_def wf_world_def
      split: option.splits if_splits dest: notin_set_remove1)

lemma stop_wf: "wf_world w \<Longrightarrow> stop self w = (e, self', w') \<Longrightarrow> wf_world w'"
proof -
  assume wf: "wf_world w" and st: "stop self w = (e, self', w')"
  define w1 where "w1 = (case input_queue self of
                     None \<Rightarrow> w
                   | Some q \<Rightarrow>
                       (case queues w q of
                          None \<Rightarrow> w
                        | Some c \<Rightarrow> w\<lparr>queues := (queues w)(q \<mapsto> no_more_input c)\<rparr>))"
  have wf1: "wf_world w1"
    using wf by (simp add: w1_def wf_world_def split: option.splits)
  show "wf_world w'"
  proof (cases "started self")
    case False
    with st wf show ?thesis by (simp add: stop_def)
  next
    case True
    show ?thesis
    proof (cases "handler self")
      case None
      with True st wf1 show ?thesis by (simp add: stop_def w1_def [symmetric] Let_def)
    next
      case (Some h)
      show ?thesis
      proof (cases "call_uninstall h w1")
        case (Inl err)
        with True Some st wf1 show ?thesis by (simp add: stop_def w1_def [symmetric] Let_def)
      next
        case (Inr w2)
        from call_uninstall_wf [OF wf1 Inr] have "wf_world w2" .
        then have "wf_world (w2\<lparr>Process := P\<rparr>)" for P by (simp add: wf_world_def)
        with True Some Inr st show ?thesis
          by (auto simp: stop_def w1_def [symmetric] Let_def)
      qed
    qed
  qed
qed

lemma start_effect:
  assumes ns: "\<not> started self" and wf: "wf_world w"
  shows "\<exists>self' w' h q. start thread_starts self w = (None, self', w')
           \<and> consumer_thread self' = (if thread_starts then Some (Thread True) else None)
           \<and> handler self' = Some h \<and> input_queue self' = Some q
           \<and> h \<in> set (root_handlers (logging_root w'))
           \<and> handler_objs w' h = Some \<lparr>level = getEffectiveLevel (logger self), output_queue = q,
                                         old_root_level = Some (root_level (logging_root w))\<rparr>
           \<and> queues w' q = Some \<lparr>q_items = [], q_closed = False\<rparr>
           \<and> root_level (logging_root w') = NOTSET + 1
           \<and> logger self' = logger self
           \<and> list_all (\<lambda>(c, old). Process w' c = Some LogregatorProcess_type \<and> old = Process w c)
                 (dict_items (old_process self'))
           \<and> root_handlers (logging_root w') = root_handlers (logging_root w) @ [h]
           \<and> h = Suc (next_id w) \<and> next_id w' = Suc (Suc (next_id w))"
proof -
  define q where "q = next_id w"
  define w1 where "w1 = w\<lparr>queues := (queues w)(q \<mapsto> \<lparr>q_items = [], q_closed = False\<rparr>),
        next_id := Suc q\<rparr>"
  define h where "h = Suc q"
  define w2 where "w2 = w1\<lparr>handler_objs :=
          (handler_objs w1)(h \<mapsto> LogregatorHandler_init (getEffectiveLevel (logger self)) q),
        next_id := Suc h\<rparr>"
  have nq: "new_IterableQueue w = (q, w1)"
    by (simp add: new_IterableQueue_def q_def w1_def)
  have nh: "new_LogregatorHandler (getEffectiveLevel (logger self)) q w1 = (h, w2)"
    by (simp add: new_LogregatorHandler_def w1_def w2_def h_def)
  have fresh: "h \<notin> set (root_handlers (logging_root w2))"
    using wf by (auto simp: wf_world_def w2_def w1_def h_def q_def)
  define w3 where "w3 = w2\<lparr>logging_root := (logging_root w2)\<lparr>root_level := NOTSET + 1,
                                   root_handlers := root_handlers (logging_root w2) @ [h]\<rparr>,
                  handler_objs := (handler_objs w2)(h \<mapsto> (LogregatorHandler_init (getEffectiveLevel (logger self)) q)
                      \<lparr>old_root_level := Some (root_level (logging_root w2))\<rparr>)\<rparr>"
  have ci: "call_install h w2 = Inr w3"
    using fresh by (simp add: call_install_def install_def setLevel_def addHandler_def w3_def w2_def)
  define old where "old = (\<lambda>c. if c \<in> set (map fst (dict_items (old_process self)))
                                then Some (Process w3 c) else old_process self c)"
  define P where "P = (\<lambda>c. if c \<in> set (map fst (dict_items (old_process self)))
                            then Some LogregatorProcess_type else Process w3 c)"
  have ss: "save_and_substitute (map fst (dict_items (old_process self))) (old_process self) (Process w3)
              = (old, P)"
    unfolding old_def P_def by (rule save_and_substitute_spec) (rule dict_items_distinct)
  define self' where "self' = self\<lparr>input_queue := Some q, handler := Some h, old_process := old,
        consumer_thread := (if thread_starts then Some (Thread True) else None)\<rparr>"
  define w' where "w' = w3\<lparr>Process := P\<rparr>"
  have st: "start thread_starts self w = (None, self', w')"
    using ns by (simp add: start_def nq nh ci ss Let_def self'_def w'_def)
  have keys: "Process w' c = Some LogregatorProcess_type \<and> v = Process w c"
    if "(c, v) \<in> set (dict_items old)" for c v
  proof -
    from that have o: "old c = Some v" by (simp add: dict_items_member)
    have "c \<in> fst ` set (dict_items (old_process self))"
    proof (rule ccontr)
      assume n: "c \<notin> fst ` set (dict_items (old_process self))"
      with o have "old_process self c = Some v" by (simp add: old_def)
      then have "(c, v) \<in> set (dict_items (old_process self))" by (simp add: dict_items_member)
      with n show False by force
    qed
    with o show ?thesis by (auto simp: old_def w'_def P_def w3_def w2_def w1_def)
  qed
  have k: "list_all (\<lambda>(c, old). Process w' c = Some LogregatorProcess_type \<and> old = Process w c)
                 (dict_items (old_process self'))"
    using keys by (auto simp: self'_def list_all_iff)
  have f: "consumer_thread self' = (if thread_starts then Some (Thread True) else None)"
    "handler self' = Some h" "input_queue self' = Some q" "logger self' = logger self"
    by (simp_all add: self'_def)
  have g: "h \<in> set (root_handlers (logging_root w'))"
    "handler_objs w' h = Some \<lparr>level = getEffectiveLevel (logger self), output_queue = q,
                                         old_root_level = Some (root_level (logging_root w))\<rparr>"
    "queues w' q = Some \<lparr>q_items = [], q_closed = False\<rparr>"
    "root_level (logging_root w') = NOTSET + 1"
    "root_handlers (logging_root w') = root_handlers (logging_root w) @ [h]"
    "h = Suc (next_id w)" "next_id w' = Suc (Suc (next_id w))"
    by (simp_all add: w'_def w3_def w2_def w1_def h_def q_def LogregatorHandler_init_def)
  from st f g k show ?thesis by blast
qed

lemma start_working:
  assumes ns: "\<not> started self" and wf: "wf_world w"
  shows "\<exists>self' w'. start True self w = (None, self', w') \<and> working self' w'
           \<and> list_all (\<lambda>(c, old). old = Process w c) (dict_items (old_process self'))"
proof -
  from start_effect [OF ns wf, of True] obtain self' w' h q where
    e: "start True self w = (None, self', w')"
      "consumer_thread self' = Some (Thread True)"
      "handler self' = Some h" "input_queue self' = Some q"
      "h \<in> set (root_handlers (logging_root w'))"
      "handler_objs w' h = Some \<lparr>level = getEffectiveLevel (logger self), output_queue = q,
                                         old_root_level = Some (root_level (logging_root w))\<rparr>"
      "queues w' q = Some \<lparr>q_items = [], q_closed = False\<rparr>"
      "root_level (logging_root w') = NOTSET + 1"
      "logger self' = logger self"
      "list_all (\<lambda>(c, old). Process w' c = Some LogregatorProcess_type \<and> old = Process w c)
                 (dict_items (old_process self'))"
    by auto
  have "working self' w'"
    using e by (auto simp: working_def list_all_iff)
  moreover have "list_all (\<lambda>(c, old). old = Process w c) (dict_items (old_process self'))"
    using e(10) by (auto simp: list_all_iff)
  ultimately show ?thesis using e(1) by blast
qed

lemma start_keeps_invariant:
  assumes "started self \<longrightarrow> handler self \<noteq> None \<and> input_queue self \<noteq> None"
    and "start thread_starts self w = (e, self', w')"
  shows "started self' \<longrightarrow> handler self' \<noteq> None \<and> input_queue self' \<noteq> None"
  using assms
  by (auto simp: start_def started_def Let_def split: if_splits prod.splits sum.splits)

lemma stop_keeps_invariant:
  assumes "stop self w = (e, self', w')"
  shows "started self' \<longrightarrow> handler self' \<noteq> None \<and> input_queue self' \<noteq> None"
  using stop_leaves_not_started [OF assms] by simp

lemma apply_ops_invariant:
  assumes "started self \<longrightarrow> handler self \<noteq> None \<and> input_queue self \<noteq> None"
    and "apply_ops ops self w = (e, self', w')"
  shows "started self' \<longrightarrow> handler self' \<noteq> None \<and> input_queue self' \<noteq> None"
  using assms
proof (induction ops self w rule: apply_ops.induct)
  case (1 self w)
  then show ?case by simp
next
  case (2 thread_starts ops self w)
  obtain e1 s1 w1 where s: "start thread_starts self w = (e1, s1, w1)"
    by (cases "start thread_starts self w")
  note inv1 = start_keeps_invariant [OF "2.prems"(1) s]
  show ?case
  proof (cases e1)
    case None
    with "2.prems"(2) s have "apply_ops ops s1 w1 = (e, self', w')" by simp
    with "2.IH" [OF s [symmetric] _ _ inv1] None show ?thesis by simp
  next
    case (Some err)
    with "2.prems"(2) s inv1 show ?thesis by simp
  qed
next
  case (3 ops self w)
  obtain e1 s1 w1 where s: "stop self w = (e1, s1, w1)"
    by (cases "stop self w")
  note inv1 = stop_keeps_invariant [OF s]
  show ?case
  proof (cases e1)
    case None
    with "3.prems"(2) s have "apply_ops ops s1 w1 = (e, self', w')" by simp
    with "3.IH" [OF s [symmetric] _ _ inv1] None show ?thesis by simp
  next
    case (Some err)
    with "3.prems"(2) s inv1 show ?thesis by simp
  qed
qed

text \<open>
  On a sequence of \<open>start\<close> and \<open>stop\<close> calls in which every consumer thread starts,
  no call raises, and the session holds its thread, handler and channel all together or
  not at all.
\<close>

lemma start_wf:
  assumes "wf_world w" and "start thread_starts self w = (e, self', w')"
  shows "wf_world w'"
proof (cases "started self")
  case True
  with assms show ?thesis by (simp add: start_def)
next
  case False
  from start_effect [OF False assms(1), of thread_starts] obtain s1 w1 h where
    e: "start thread_starts self w = (None, s1, w1)"
      "root_handlers (logging_root w1) = root_handlers (logging_root w) @ [h]"
      "h = Suc (next_id w)" "next_id w1 = Suc (Suc (next_id w))"
    by auto
  from assms(1) have old: "\<forall>k \<in> set (root_handlers (logging_root w)). k < next_id w"
    and d: "distinct (root_handlers (logging_root w))"
    by (simp_all add: wf_world_def)
  from old have "h \<notin> set (root_handlers (logging_root w))"
    unfolding e(3) by fastforce
  moreover from old have "\<forall>k \<in> set (root_handlers (logging_root w)). k < Suc (Suc (next_id w))"
    by fastforce
  ultimately have "wf_world w1"
    using d e(2,3,4) by (simp add: wf_world_def)
  with e(1) assms(2) show ?thesis by simp
qed

lemma start_consistent:
  assumes "wf_world w" and "consistent self w"
  shows "\<exists>self' w'. start True self w = (None, self', w') \<and> consistent self' w'"
proof (cases "started self")
  case True
  with assms show ?thesis by (simp add: start_def)
next
  case False
  from start_effect [OF False assms(1), of True] obtain self' w' h q where
    e: "start True self w = (None, self', w')"
      "consumer_thread self' = Some (Thread True)"
      "handler self' = Some h" "input_queue self' = Some q"
      "handler_objs w' h = Some \<lparr>level = getEffectiveLevel (logger self), output_queue = q,
                                         old_root_level = Some (root_level (logging_root w))\<rparr>"
    by auto
  then have "consistent self' w'" by (simp add: consistent_def)
  with e(1) show ?thesis by blast
qed

lemma stop_consistent:
  assumes "consistent self w"
  shows "\<exists>self' w'. stop self w = (None, self', w') \<and> consistent self' w'"
proof (cases "started self")
  case False
  with assms show ?thesis by (simp add: stop_def)
next
  case True
  then obtain t where t: "consumer_thread self = Some t" by (auto simp: started_def)
  from assms t obtain h obj lvl q where
    h: "handler self = Some h" "handler_objs w h = Some obj" "old_root_level obj = Some lvl"
       "input_queue self = Some q"
    by (auto simp: consistent_def split: option.splits)
  define w1 where "w1 = (case queues w q of
                          None \<Rightarrow> w
                        | Some c \<Rightarrow> w\<lparr>queues := (queues w)(q \<mapsto> no_more_input c)\<rparr>)"
  have o1: "handler_objs w1 h = Some obj"
    using h(2) by (simp add: w1_def split: option.splits)
  from call_uninstall_ok [OF o1 h(3)] obtain w2 where w2: "call_uninstall h w1 = Inr w2"
    by blast
  have "stop self w = (None, self\<lparr>consumer_thread := None, handler := None, input_queue := None\<rparr>,
      w2\<lparr>Process := restore_each (dict_items (old_process self)) (Process w2)\<rparr>)"
    using True h w2 by (simp add: stop_def w1_def [symmetric] Let_def)
  moreover have "consistent (self\<lparr>consumer_thread := None, handler := None, input_queue := None\<rparr>)
      (w2\<lparr>Process := restore_each (dict_items (old_process self)) (Process w2)\<rparr>)"
    by (simp add: consistent_def)
  ultimately show ?thesis by blast
qed

lemma apply_ops_threads_start:
  assumes "wf_world w" and "consistent self w" and "Start False \<notin> set ops"
  shows "\<exists>self' w'. apply_ops ops self w = (None, self', w') \<and> wf_world w' \<and> consistent self' w'"
  using assms
proof (induction ops self w rule: apply_ops.induct)
  case (1 self w)
  then show ?case by simp
next
  case (2 thread_starts ops self w)
  from "2.prems"(3) have ts: "thread_starts" by auto
  from start_consistent [OF "2.prems"(1,2)] obtain s1 w1 where
    s: "start True self w = (None, s1, w1)" "consistent s1 w1" by blast
  from start_wf [OF "2.prems"(1) s(1)] have wf1: "wf_world w1" .
  from "2.prems"(3) have rest: "Start False \<notin> set ops" by simp
  from "2.IH" [OF _ _ _ wf1 s(2) rest] s(1) ts
  show ?case by simp
next
  case (3 ops self w)
  from stop_consistent [OF "3.prems"(2)] obtain s1 w1 where
    s: "stop self w = (None, s1, w1)" "consistent s1 w1" by blast
  from stop_wf [OF "3.prems"(1) s(1)] have wf1: "wf_world w1" .
  from "3.prems"(3) have rest: "Start False \<notin> set ops" by simp
  from "3.IH" [OF _ _ _ wf1 s(2) rest] s(1)
  show ?case by simp
qed

text \<open>
  C8: \<open>stop\<close> on a session that is not started returns normally and changes neither the
  session nor the world. Whatever the outcome of a \<open>stop\<close>, the session is not started
  afterwards, so a second \<open>stop\<close> changes nothing. And \<open>start\<close> after \<open>stop\<close>, the consumer
  thread starting, gives a started session with everything in place (\<open>working\<close>), the
  \<open>Process\<close> attributes saved being the ones that were current after the \<open>stop\<close>.
\<close>

theorem stop_noop_and_restart:
  "(\<not> started self \<longrightarrow> stop self w = (None, self, w))
   \<and> (stop self w = (e, self', w') \<longrightarrow>
        \<not> started self' \<and> stop self' w' = (None, self', w'))
   \<and> (wf_world w \<and> stop self w = (e, self', w') \<longrightarrow>
        (\<exists>self'' w''. start True self' w' = (None, self'', w'') \<and> working self'' w''
            \<and> list_all (\<lambda>(c, old). old = Process w' c) (dict_items (old_process self''))))"
proof (intro conjI impI)
  assume "\<not> started self"
  then show "stop self w = (None, self, w)"
    by (rule stop_not_started)
next
  assume s: "stop self w = (e, self', w')"
  then show "\<not> started self'"
    by (rule stop_leaves_not_started)
  then show "stop self' w' = (None, self', w')"
    by (rule stop_not_started)
next
  assume a: "wf_world w \<and> stop self w = (e, self', w')"
  then have ns: "\<not> started self'"
    using stop_leaves_not_started by blast
  from a have wf: "wf_world w'"
    using stop_wf by blast
  from start_working [OF ns wf]
  show "\<exists>self'' w''. start True self' w' = (None, self'', w'') \<and> working self'' w''
            \<and> list_all (\<lambda>(c, old). old = Process w' c) (dict_items (old_process self''))" .
qed

text \<open>
  A session on the sink \<open>S\<close>, created in process 100 under the start method \<open>spawn\<close>,
  started in \<open>fresh_world\<close>, then stopped twice and started again.
\<close>

theorem stop_noop_and_restart_witness:
  "\<not> started (Logregator_init sink_S 100 ''spawn'')
   \<and> stop (Logregator_init sink_S 100 ''spawn'') fresh_world
       = (None, Logregator_init sink_S 100 ''spawn'', fresh_world)
   \<and> started (fst (snd (start True (Logregator_init sink_S 100 ''spawn'') fresh_world)))
   \<and> wf_world (snd (snd (start True (Logregator_init sink_S 100 ''spawn'') fresh_world)))
   \<and> fst (stop (fst (snd (start True (Logregator_init sink_S 100 ''spawn'') fresh_world)))
               (snd (snd (start True (Logregator_init sink_S 100 ''spawn'') fresh_world)))) = None
   \<and> logging_root (snd (snd
         (stop (fst (snd (start True (Logregator_init sink_S 100 ''spawn'') fresh_world)))
               (snd (snd (start True (Logregator_init sink_S 100 ''spawn'') fresh_world))))))
       = \<lparr>root_handlers = [], root_level = 30\<rparr>
   \<and> stop
        (fst (snd (stop (fst (snd (start True (Logregator_init sink_S 100 ''spawn'') fresh_world)))
               (snd (snd (start True (Logregator_init sink_S 100 ''spawn'') fresh_world))))))
        (snd (snd (stop (fst (snd (start True (Logregator_init sink_S 100 ''spawn'') fresh_world)))
               (snd (snd (start True (Logregator_init sink_S 100 ''spawn'') fresh_world))))))
       = (None,
          fst (snd (stop (fst (snd (start True (Logregator_init sink_S 100 ''spawn'') fresh_world)))
               (snd (snd (start True (Logregator_init sink_S 100 ''spawn'') fresh_world))))),
          snd (snd (stop (fst (snd (start True (Logregator_init sink_S 100 ''spawn'') fresh_world)))
               (snd (snd (start True (Logregator_init sink_S 100 ''spawn'') fresh_world))))))
   \<and> (\<exists>self'' w''.
         start True
          (fst (snd (stop (fst (snd (start True (Logregator_init sink_S 100 ''spawn'') fresh_world)))
               (snd (snd (start True (Logregator_init sink_S 100 ''spawn'') fresh_world))))))
          (snd (snd (stop (fst (snd (start True (Logregator_init sink_S 100 ''spawn'') fresh_world)))
               (snd (snd (start True (Logregator_init sink_S 100 ''spawn'') fresh_world))))))
         = (None, self'', w'') \<and> working self'' w'')"
proof -
  define s0 where "s0 = Logregator_init sink_S 100 ''spawn''"
  define A where "A = start True s0 fresh_world"
  define B where "B = stop (fst (snd A)) (snd (snd A))"
  have ns0: "\<not> started s0"
    by (simp add: s0_def started_def Logregator_init_def)
  have wf0: "wf_world fresh_world"
    by (simp add: wf_world_def fresh_world_def)
  have A_eval: "fst A = None" "consumer_thread (fst (snd A)) = Some (Thread True)"
    "handler (fst (snd A)) = Some (Suc 0)" "input_queue (fst (snd A)) = Some 0"
    "logging_root (snd (snd A)) = \<lparr>root_handlers = [Suc 0], root_level = 1\<rparr>"
    "handler_objs (snd (snd A)) (Suc 0)
       = Some \<lparr>level = 20, output_queue = 0, old_root_level = Some 30\<rparr>"
    "queues (snd (snd A)) 0 = Some \<lparr>q_items = [], q_closed = False\<rparr>"
    "next_id (snd (snd A)) = 2"
    by (simp_all add: A_def s0_def start_def started_def Logregator_init_def fresh_world_def
        new_IterableQueue_def new_LogregatorHandler_def call_install_def install_def
        setLevel_def addHandler_def LogregatorHandler_init_def dict_items_def Let_def
        getEffectiveLevel_def sink_S_def NOTSET_def)
  have stA: "started (fst (snd A))"
    by (simp add: started_def A_eval)
  have wfA: "wf_world (snd (snd A))"
    by (simp add: wf_world_def A_eval)
  have B_eval: "fst B = None" "logging_root (snd (snd B)) = \<lparr>root_handlers = [], root_level = 30\<rparr>"
    using stA
    by (simp_all add: B_def stop_def A_eval call_uninstall_def uninstall_def setLevel_def
        removeHandler_def Let_def split: option.splits)
  have stopA: "stop (fst (snd A)) (snd (snd A)) = (fst B, fst (snd B), snd (snd B))"
    by (simp add: B_def)
  note t0 = stop_noop_and_restart [of s0 fresh_world None s0 fresh_world]
  note t1 = stop_noop_and_restart [of "fst (snd A)" "snd (snd A)" "fst B" "fst (snd B)" "snd (snd B)"]
  from t0 ns0 have c2: "stop s0 fresh_world = (None, s0, fresh_world)" by blast
  from t1 stopA have c7: "stop (fst (snd B)) (snd (snd B)) = (None, fst (snd B), snd (snd B))"
    by blast
  from t1 stopA wfA have c8: "\<exists>self'' w''. start True (fst (snd B)) (snd (snd B)) = (None, self'', w'')
      \<and> working self'' w''"
    by blast
  from ns0 c2 stA wfA B_eval c7 c8 show ?thesis
    unfolding B_def A_def s0_def by (intro conjI)
qed

section \<open>The session: failure of the consumer thread\<close>

text \<open>
  When the consumer thread cannot be started, \<open>start\<close> returns normally with the session
  not started, and with everything done before the thread was created still in place.
\<close>

lemma start_thread_failure_general:
  assumes "\<not> started self" and "wf_world w"
  shows "\<exists>self' w' h q. start False self w = (None, self', w')
           \<and> \<not> started self'
           \<and> handler self' = Some h \<and> input_queue self' = Some q
           \<and> h \<in> set (root_handlers (logging_root w'))
           \<and> queues w' q = Some \<lparr>q_items = [], q_closed = False\<rparr>
           \<and> root_level (logging_root w') = NOTSET + 1
           \<and> list_all (\<lambda>(c, old). Process w' c = Some LogregatorProcess_type)
                 (dict_items (old_process self'))"
proof -
  from start_effect [OF assms, of False] obtain self' w' h q where
    e: "start False self w = (None, self', w')"
      "consumer_thread self' = None"
      "handler self' = Some h" "input_queue self' = Some q"
      "h \<in> set (root_handlers (logging_root w'))"
      "queues w' q = Some \<lparr>q_items = [], q_closed = False\<rparr>"
      "root_level (logging_root w') = NOTSET + 1"
      "list_all (\<lambda>(c, old). Process w' c = Some LogregatorProcess_type \<and> old = Process w c)
                 (dict_items (old_process self'))"
    by auto
  have "\<not> started self'"
    using e(2) by (simp add: started_def)
  moreover have "list_all (\<lambda>(c, old). Process w' c = Some LogregatorProcess_type)
                 (dict_items (old_process self'))"
    using e(8) by (auto simp: list_all_iff)
  ultimately show ?thesis using e by blast
qed

text \<open>
  C1, where the thread cannot be started: a session on the sink \<open>S\<close>, created in process 100 under the
  start method \<open>spawn\<close>, calls \<open>start\<close> in \<open>fresh_world\<close> and the consumer thread cannot
  be started. \<open>start\<close> raises nothing and the session is not started; but its handler
  (identity 1) is kept and is registered on the root logger, whose level stays at 1
  instead of 30, its channel (identity 0) is kept, open, and \<open>Process\<close> is
  \<open>LogregatorProcess\<close> in all three contexts.
\<close>

theorem start_thread_failure_partial_state:
  "(case start False (Logregator_init sink_S 100 ''spawn'') fresh_world of
      (e, self, w) \<Rightarrow>
        e = None \<and> \<not> started self
        \<and> handler self = Some 1
        \<and> root_handlers (logging_root w) = [1]
        \<and> root_level (logging_root fresh_world) = 30 \<and> root_level (logging_root w) = 1
        \<and> input_queue self = Some 0
        \<and> queues w 0 = Some \<lparr>q_items = [], q_closed = False\<rparr>
        \<and> map (Process fresh_world) [SpawnContext, MpModule, MpContextModule]
            = [Some (Other_type ''Process''), Some (Other_type ''Process''),
               Some (Other_type ''Process'')]
        \<and> map (Process w) [SpawnContext, MpModule, MpContextModule]
            = [Some LogregatorProcess_type, Some LogregatorProcess_type,
               Some LogregatorProcess_type])"
  by (simp add: start_def started_def Logregator_init_def fresh_world_def
      new_IterableQueue_def new_LogregatorHandler_def call_install_def install_def
      setLevel_def addHandler_def LogregatorHandler_init_def dict_items_def Let_def
      getEffectiveLevel_def sink_S_def NOTSET_def)

text \<open>
  What the state left behind does to the next use of the session: after a \<open>start\<close> whose
  thread starts and a \<open>stop\<close>, the first handler is still registered on the root logger,
  the root level is 1 and not 30, and \<open>Process\<close> is still \<open>LogregatorProcess\<close>.
\<close>

lemma start_thread_failure_then_restart:
  "(case start False (Logregator_init sink_S 100 ''spawn'') fresh_world of
      (e1, s1, w1) \<Rightarrow>
        (case start True s1 w1 of
           (e2, s2, w2) \<Rightarrow>
             (case stop s2 w2 of
                (e3, s3, w3) \<Rightarrow>
                  e1 = None \<and> e2 = None \<and> e3 = None \<and> started s2 \<and> \<not> started s3
                  \<and> handler s3 = None \<and> input_queue s3 = None
                  \<and> root_handlers (logging_root w3) = [1]
                  \<and> root_level (logging_root w3) = 1
                  \<and> map (Process w3) [SpawnContext, MpModule, MpContextModule]
                      = [Some LogregatorProcess_type, Some LogregatorProcess_type,
                         Some LogregatorProcess_type])))"
  by (simp add: start_def stop_def started_def Logregator_init_def fresh_world_def
      new_IterableQueue_def new_LogregatorHandler_def call_install_def install_def
      call_uninstall_def uninstall_def removeHandler_def no_more_input_def
      setLevel_def addHandler_def LogregatorHandler_init_def dict_items_def Let_def
      getEffectiveLevel_def sink_S_def NOTSET_def)

section \<open>The convenience session: properties\<close>

text \<open>
  C9: with no file name and \<open>console\<close> given as \<open>False\<close>, \<open>Logtor.__init__\<close> raises
  \<open>ValueError\<close> and no factory has been called. With \<open>console\<close> not given, it behaves as
  with \<open>console\<close> given as true exactly when there is no file name: no file name gives
  the console logger, a file name gives the logger that writes to the file only.
\<close>

theorem Logtor_init_destination:
  "Logtor_init factory getpid start_method None mode lvl (Some False) nm = (Inl ValueError, [])
   \<and> Logtor_init factory getpid start_method filename mode lvl None nm
       = Logtor_init factory getpid start_method filename mode lvl (Some (filename = None)) nm
   \<and> Logtor_init factory getpid start_method None mode lvl None nm
       = (Inr (Logregator_init (factory (get_console_logger nm lvl)) getpid start_method),
          [get_console_logger nm lvl])
   \<and> Logtor_init factory getpid start_method (Some f) mode lvl None nm
       = (Inr (Logregator_init (factory (get_file_logger nm f mode lvl)) getpid start_method),
          [get_file_logger nm f mode lvl])"
  by (simp add: Logtor_init_def)

end
